theory Spec2Isabelle
  imports Complex_Main "HOL-Library.Sublist" "HOL-Library.AList"
begin

section \<open>Python exceptions\<close>

text \<open>
  The exception classes that the modelled code raises, catches or lets through.
  \<open>Exception msg\<close> is a plain \<^verbatim>\<open>Exception(msg)\<close>; \<open>OperationalError\<close> stands for
  the record store's connection errors, \<open>SerialException\<close> for a failure of the PCU's
  serial line.
\<close>

datatype exn =
    Exception string
  | TimeoutExpired
  | OperationalError
  | SerialException
  | ValueError
  | OverflowError
  | KeyError string
  | TypeError
  | JSONDecodeError
  | OSError

section \<open>HWP PCU agent: \<^verbatim>\<open>socs/agents/hwp_pcu/agent.py\<close>\<close>

subsection \<open>The PCU driver\<close>

text \<open>
  The driver module \<^verbatim>\<open>socs.agents.hwp_pcu.drivers.hwp_pcu\<close> is not part of the sources at
  hand; the agent only calls \<^verbatim>\<open>relay_off\<close>, \<^verbatim>\<open>relay_on\<close>, \<^verbatim>\<open>get_status\<close> and
  \<^verbatim>\<open>close\<close> on it. The PCU object is the sequence of calls issued to the hardware, and the
  driver is a parameter that says, from the calls issued so far, whether the next call
  raises and what \<^verbatim>\<open>get_status\<close> reads.
\<close>

datatype pcu_call = RelayOff int | RelayOn int | GetStatus | Close

record PCU =
  issued :: "pcu_call list"

record driver =
  fault :: "pcu_call list \<Rightarrow> pcu_call \<Rightarrow> exn option"
  read_status :: "pcu_call list \<Rightarrow> string"

text \<open>One call on the PCU: it is issued in any case, and raises when the driver says so.\<close>

definition invoke :: "driver \<Rightarrow> pcu_call \<Rightarrow> PCU \<Rightarrow> exn option \<times> PCU" where
  "invoke drv c p = (fault drv (issued p) c, p\<lparr>issued := issued p @ [c]\<rparr>)"

text \<open>
  \<^verbatim>\<open>for i in channels: PCU.relay_xxx(i)\<close>: the calls in list order, stopping at the first
  one that raises.
\<close>

fun relay_each :: "driver \<Rightarrow> (int \<Rightarrow> pcu_call) \<Rightarrow> int list \<Rightarrow> PCU \<Rightarrow> exn option \<times> PCU" where
  "relay_each drv mk [] p = (None, p)"
| "relay_each drv mk (i # is) p =
     (case invoke drv (mk i) p of
        (Some e, p') \<Rightarrow> (Some e, p')
      | (None, p') \<Rightarrow> relay_each drv mk is p')"

subsection \<open>Actions\<close>

text \<open>
  \<^verbatim>\<open>Actions.SendCommand\<close> carries its command string and the deferred created in
  \<^verbatim>\<open>__post_init__\<close>; the deferred is an object, identified here by a number.
  \<open>OtherAction\<close> is any object that is not a \<^verbatim>\<open>SendCommand\<close>.
\<close>

datatype action = SendCommand (deferred: nat) (command: string) | OtherAction (deferred: nat)

text \<open>The dict \<^verbatim>\<open>dict(off_channel=..., on_channel=...)\<close> that \<^verbatim>\<open>process_action\<close> returns.\<close>

record relay_report =
  off_channel :: "int list"
  on_channel :: "int list"

text \<open>
  The \<^verbatim>\<open>if/elif\<close> chain of \<^verbatim>\<open>process_action\<close>: the pair of local lists
  \<^verbatim>\<open>(off_channel, on_channel)\<close> after it. Both start empty and stay so when no branch
  matches.
\<close>

definition command_channels :: "string \<Rightarrow> int list \<times> int list" where
  "command_channels cmd =
     (if cmd = ''off'' then ([0, 1, 2, 5, 6, 7], [])
      else if cmd = ''on_1'' then ([5, 6, 7], [0, 1, 2])
      else if cmd = ''on_2'' then ([], [0, 1, 2, 5, 6, 7])
      else if cmd = ''stop'' then ([0, 6, 7], [1, 2, 5])
      else ([], []))"

text \<open>
  \<^verbatim>\<open>process_action(action, PCU)\<close>. The result is the exception that escapes, or the
  returned value: \<open>Some\<close> dict for a \<^verbatim>\<open>SendCommand\<close>, \<open>None\<close> (Python's implicit
  \<^verbatim>\<open>None\<close>) for anything else. The three \<^verbatim>\<open>action.log.info\<close> lines do not touch the PCU and
  are left out.
\<close>

definition process_action ::
  "driver \<Rightarrow> action \<Rightarrow> PCU \<Rightarrow> (exn + relay_report option) \<times> PCU" where
  "process_action drv act p =
     (case act of
        SendCommand d cmd \<Rightarrow>
          (case command_channels cmd of
             (off, on) \<Rightarrow>
               (case relay_each drv RelayOff off p of
                  (Some e, p1) \<Rightarrow> (Inl e, p1)
                | (None, p1) \<Rightarrow>
                    (case relay_each drv RelayOn on p1 of
                       (Some e, p2) \<Rightarrow> (Inl e, p2)
                     | (None, p2) \<Rightarrow>
                         (Inr (Some \<lparr>off_channel = off, on_channel = on\<rparr>), p2))))
      | OtherAction d \<Rightarrow> (Inr None, p))"


text \<open>A driver that never raises and always reads the same status.\<close>

definition quiet_driver :: driver where
  "quiet_driver = \<lparr>fault = (\<lambda>h c. None), read_status = (\<lambda>h. ''ok'')\<rparr>"

subsection \<open>The agent's main process\<close>

text \<open>
  What the agent does besides driving the PCU, in the order it does it: the session status
  it sets, the deferreds it fires, the feed messages it publishes and its sleeps.
\<close>

datatype hwp_event =
    SetStatus string
  | Errback nat exn
  | Callback nat "relay_report option"
  | Publish string real
  | Sleep real

text \<open>
  The variables of \<^verbatim>\<open>HWPPCUAgent.main\<close>: the PCU object, \<^verbatim>\<open>self.action_queue\<close> (first
  in, first out), \<^verbatim>\<open>session.status\<close>, \<^verbatim>\<open>last_daq\<close>, and the events so far.
\<close>

record hwp_state =
  pcu :: PCU
  action_queue :: "action list"
  session_status :: string
  last_daq :: real
  elog :: "hwp_event list"

text \<open>
  The polling loop runs until another thread sets the session status, and
  \<^verbatim>\<open>send_command\<close> puts actions on the queue from the reactor thread meanwhile. One
  \<open>tick\<close> is what the environment does around one test of the loop condition: whether
  \<^verbatim>\<open>_stop_main\<close> ran before the test, what \<^verbatim>\<open>time.time()\<close> reads in the loop and then
  in \<^verbatim>\<open>_get_and_publish_data\<close>, and the actions that reach the queue before
  \<^verbatim>\<open>_process_actions\<close> finds it empty.
\<close>

record tick =
  stop_requested :: bool
  now :: real
  publish_time :: real
  arrivals :: "action list"

text \<open>
  The environment of one run of \<^verbatim>\<open>main\<close>: whether \<^verbatim>\<open>pcu.PCU(port=self.port)\<close> raises,
  the actions that reach the queue while the start-up loop is still emptying it, and the
  ticks of the polling loop.
\<close>

record main_env =
  connect :: "exn option"
  early :: "action list"
  ticks :: "tick list"

text \<open>
  How a run ends: \<^verbatim>\<open>main\<close> returned, an exception escaped it, or the loop was still
  polling when the given ticks ran out.
\<close>

datatype outcome = Returned | Raised exn | Polling

text \<open>
  \<^verbatim>\<open>_process_actions\<close>: every queued action is taken off the queue and processed; its
  deferred gets the result, or the exception that \<^verbatim>\<open>process_action\<close> raised.
\<close>

fun process_actions ::
  "driver \<Rightarrow> action list \<Rightarrow> PCU \<Rightarrow> hwp_event list \<Rightarrow> PCU \<times> hwp_event list" where
  "process_actions drv [] p l = (p, l)"
| "process_actions drv (a # q) p l =
     (case process_action drv a p of
        (Inr res, p') \<Rightarrow> process_actions drv q p' (l @ [Callback (deferred a) res])
      | (Inl e, p') \<Rightarrow> process_actions drv q p' (l @ [Errback (deferred a) e]))"

text \<open>
  \<^verbatim>\<open>_get_and_publish_data\<close>, at the time \<open>t\<close> it reads from the clock. The assignment
  to \<^verbatim>\<open>session.data\<close> is left out.
\<close>

definition get_and_publish_data ::
  "driver \<Rightarrow> real \<Rightarrow> hwp_state \<Rightarrow> exn option \<times> hwp_state" where
  "get_and_publish_data drv t s =
     (case invoke drv GetStatus (pcu s) of
        (Some e, p') \<Rightarrow> (Some e, s\<lparr>pcu := p'\<rparr>)
      | (None, p') \<Rightarrow>
          (None, s\<lparr>pcu := p', elog := elog s @ [Publish (read_status drv (issued (pcu s))) t]\<rparr>))"

text \<open>
  The start-up loop of \<^verbatim>\<open>main\<close>:
  \<^verbatim>\<open>while not self.action_queue.empty(): action = get(); action.deferred.errback(...)\<close>.
\<close>

fun cancel_queued :: "action list \<Rightarrow> hwp_event list \<Rightarrow> hwp_event list" where
  "cancel_queued [] l = l"
| "cancel_queued (a # q) l =
     cancel_queued q (l @ [Errback (deferred a) (Exception ''Action cancelled'')])"

text \<open>
  \<^verbatim>\<open>self._process_actions(PCU)\<close> on the agent's state, with the actions \<open>arr\<close> that
  arrive while it runs: the queue is empty afterwards.
\<close>

definition process_queue :: "driver \<Rightarrow> action list \<Rightarrow> hwp_state \<Rightarrow> hwp_state" where
  "process_queue drv arr s =
     (case process_actions drv (action_queue s @ arr) (pcu s) (elog s) of
        (p, l) \<Rightarrow> s\<lparr>pcu := p, action_queue := [], elog := l\<rparr>)"

text \<open>\<^verbatim>\<open>time.sleep(0.1)\<close>.\<close>

definition nap :: "hwp_state \<Rightarrow> hwp_state" where
  "nap s = s\<lparr>elog := elog s @ [Sleep (1 / 10)]\<rparr>"

text \<open>
  One pass through the body of the polling loop; \<open>Some e\<close> when \<^verbatim>\<open>get_status\<close> raises,
  which nothing in \<^verbatim>\<open>main\<close> catches.
\<close>

definition poll_body :: "driver \<Rightarrow> tick \<Rightarrow> hwp_state \<Rightarrow> exn option \<times> hwp_state" where
  "poll_body drv t s =
     (if now t - last_daq s > 5 then
        (case get_and_publish_data drv (publish_time t) s of
           (Some e, s1) \<Rightarrow> (Some e, s1)
         | (None, s1) \<Rightarrow> (None, nap (process_queue drv (arrivals t) (s1\<lparr>last_daq := now t\<rparr>))))
      else (None, nap (process_queue drv (arrivals t) s)))"

text \<open>
  The polling loop \<^verbatim>\<open>while session.status in ['starting', 'running']\<close>, one tick per
  test of the condition, and \<^verbatim>\<open>PCU.close()\<close> after it.
\<close>

fun poll :: "driver \<Rightarrow> tick list \<Rightarrow> hwp_state \<Rightarrow> outcome \<times> hwp_state" where
  "poll drv [] s = (Polling, s)"
| "poll drv (t # ts) s =
     (let s0 = (if stop_requested t then s\<lparr>session_status := ''stopping''\<rparr> else s) in
      if session_status s0 = ''starting'' \<or> session_status s0 = ''running'' then
        (case poll_body drv t s0 of
           (Some e, s1) \<Rightarrow> (Raised e, s1)
         | (None, s1) \<Rightarrow> poll drv ts s1)
      else
        (case invoke drv Close (pcu s0) of
           (Some e, p') \<Rightarrow> (Raised e, s0\<lparr>pcu := p'\<rparr>)
         | (None, p') \<Rightarrow> (Returned, s0\<lparr>pcu := p'\<rparr>)))"

text \<open>
  \<^verbatim>\<open>HWPPCUAgent.main\<close>, started with \<open>q\<close> on the action queue and the session status
  \<^verbatim>\<open>'starting'\<close>.
\<close>

definition main :: "driver \<Rightarrow> main_env \<Rightarrow> action list \<Rightarrow> outcome \<times> hwp_state" where
  "main drv env q =
     (case connect env of
        Some e \<Rightarrow>
          (Raised e, \<lparr>pcu = \<lparr>issued = []\<rparr>, action_queue = q, session_status = ''starting'',
                      last_daq = 0, elog = []\<rparr>)
      | None \<Rightarrow>
          poll drv (ticks env)
            \<lparr>pcu = \<lparr>issued = []\<rparr>, action_queue = [], session_status = ''running'',
             last_daq = 0, elog = cancel_queued (q @ early env) [SetStatus ''running'']\<rparr>)"

text \<open>The state \<open>s\<close> with the events \<open>l\<close> put in front of its own.\<close>

definition logged :: "hwp_event list \<Rightarrow> hwp_state \<Rightarrow> hwp_state" where
  "logged l s = s\<lparr>elog := l @ elog s\<rparr>"

text \<open>
  A sample run: one pass in which \<^verbatim>\<open>send_command('on_1')\<close> arrives, then a stop request.
\<close>

definition demo_env :: main_env where
  "demo_env = \<lparr>connect = None, early = [],
     ticks = [\<lparr>stop_requested = False, now = 100, publish_time = 100,
               arrivals = [SendCommand 3 ''on_1'']\<rparr>,
              \<lparr>stop_requested = True, now = 101, publish_time = 101, arrivals = []\<rparr>]\<rparr>"

section \<open>Pysmurf monitor: \<^verbatim>\<open>agents/pysmurf_monitor/pysmurf_monitor.py\<close>\<close>

subsection \<open>Python values and dicts\<close>

text \<open>
  The values that \<^verbatim>\<open>json.loads\<close> produces, and the \<^verbatim>\<open>datetime\<close> that the monitor
  stores in place of the timestamp. A dict is the list of its items in insertion order.
\<close>

datatype pyval =
    PNone
  | PBool bool
  | PInt int
  | PFloat real
  | PStr string
  | PList "pyval list"
  | PDict "(string \<times> pyval) list"
  | PDatetime real

type_synonym pydict = "(string \<times> pyval) list"

text \<open>
  \<^verbatim>\<open>obj[key]\<close> for a string key: \<^verbatim>\<open>KeyError\<close> on a dict without the key,
  \<^verbatim>\<open>TypeError\<close> on anything that is not a dict.
\<close>

definition subscript :: "pyval \<Rightarrow> string \<Rightarrow> exn + pyval" where
  "subscript v k =
     (case v of
        PDict items \<Rightarrow> (case map_of items k of Some x \<Rightarrow> Inr x | None \<Rightarrow> Inl (KeyError k))
      | _ \<Rightarrow> Inl TypeError)"

text \<open>\<^verbatim>\<open>d.update(other)\<close>: the items of \<open>other\<close> are assigned one after the other.\<close>

fun dict_update :: "pydict \<Rightarrow> pydict \<Rightarrow> pydict" where
  "dict_update d [] = d"
| "dict_update d ((k, v) # other) = dict_update (AList.update k v d) other"

text \<open>\<^verbatim>\<open>s.split(c)\<close> for a one-character separator.\<close>

fun split_on :: "char \<Rightarrow> string \<Rightarrow> string list" where
  "split_on c [] = [[]]"
| "split_on c (x # xs) =
     (if x = c then [] # split_on c xs
      else (case split_on c xs of
              w # ws \<Rightarrow> (x # w) # ws
            | [] \<Rightarrow> [[x]]))"

subsection \<open>The monitor\<close>

record PysmurfMonitor =
  create_table :: bool
  base_file_info :: pydict
  sql_config :: "(string \<times> string) list"

text \<open>
  \<^verbatim>\<open>PysmurfMonitor.__init__\<close>, from the agent's address, \<^verbatim>\<open>args.create_table\<close>,
  \<^verbatim>\<open>socs.__version__\<close> and \<^verbatim>\<open>os.environ\<close>. Unpacking the split address into
  \<^verbatim>\<open>site, instance\<close> raises \<^verbatim>\<open>ValueError\<close> unless there are exactly two parts. The
  connection pool connects lazily and is not part of the state.
\<close>

definition PysmurfMonitor_init ::
  "string \<Rightarrow> bool \<Rightarrow> string \<Rightarrow> (string \<rightharpoonup> string) \<Rightarrow> exn + PysmurfMonitor" where
  "PysmurfMonitor_init agent_address create_tbl socs_version environ =
     (case split_on CHR ''.'' agent_address of
        [site, instance] \<Rightarrow>
          (case environ ''MYSQL_USER'' of
             None \<Rightarrow> Inl (KeyError ''MYSQL_USER'')
           | Some user \<Rightarrow>
               (case environ ''MYSQL_PASSWORD'' of
                  None \<Rightarrow> Inl (KeyError ''MYSQL_PASSWORD'')
                | Some passwd \<Rightarrow>
                    Inr \<lparr>create_table = create_tbl,
                         base_file_info =
                           [(''site'', PStr site),
                            (''instance_id'', PStr instance),
                            (''copied'', PInt 0),
                            (''failed_copy_attempts'', PInt 0),
                            (''socs_version'', PStr socs_version)],
                         sql_config =
                           [(''user'', user), (''passwd'', passwd), (''database'', ''files'')] @
                           (case environ ''MYSQL_HOST'' of
                              None \<Rightarrow> []
                            | Some db_host \<Rightarrow> [(''host'', db_host)])\<rparr>))
      | _ \<Rightarrow> Inl ValueError)"

text \<open>
  What \<^verbatim>\<open>datagramReceived\<close> calls outside this file: \<^verbatim>\<open>json.loads\<close>,
  \<^verbatim>\<open>datetime.datetime.utcfromtimestamp\<close>, \<^verbatim>\<open>int\<close>, \<^verbatim>\<open>socs.util.get_md5sum\<close> (which
  reads the file at the given path), and the database interaction
  \<^verbatim>\<open>pysmurf_files_manager.add_entry\<close> run by the connection pool, which either writes the
  entry or fails with an exception. They are parameters of the model.
\<close>

record pm_env =
  json_loads :: "string \<Rightarrow> exn + pyval"
  utcfromtimestamp :: "pyval \<Rightarrow> exn + pyval"
  py_int :: "pyval \<Rightarrow> exn + pyval"
  get_md5sum :: "pyval \<Rightarrow> exn + string"
  add_entry :: "pydict \<Rightarrow> exn option"

text \<open>
  What the monitor does, in order: the log line for a new file, the checksum computation,
  the entry handed to the connection pool, and the log line of the callback or of the
  errback (each is passed the entry \<open>d\<close> and prints \<^verbatim>\<open>d['path']\<close>).
\<close>

datatype pm_event =
    NewFile pyval
  | ComputeMd5 pyval
  | RunInteraction pydict
  | Added pydict
  | NotAdded pydict

text \<open>
  The \<^verbatim>\<open>pysmurf_files\<close> table as the list of entries written so far, and the events so far.
  The module \<^verbatim>\<open>socs.db.pysmurf_files_manager\<close> is not among the sources; the row that
  \<^verbatim>\<open>add_entry\<close> writes is taken to be the dict it is given.
\<close>

record pm_world =
  pysmurf_files :: "pydict list"
  plog :: "pm_event list"

definition emit :: "pm_event \<Rightarrow> pm_world \<Rightarrow> pm_world" where
  "emit ev w = w\<lparr>plog := plog w @ [ev]\<rparr>"

text \<open>
  \<^verbatim>\<open>self.dbpool.runInteraction(pysmurf_files_manager.add_entry, d)\<close> with the errback and
  the callback that \<^verbatim>\<open>datagramReceived\<close> attaches. The interaction runs in the pool's
  thread; its outcome is taken at once. A failure is logged by the errback and raises
  nothing in \<^verbatim>\<open>datagramReceived\<close>.
\<close>

definition run_interaction :: "pm_env \<Rightarrow> pydict \<Rightarrow> pm_world \<Rightarrow> pm_world" where
  "run_interaction env d w =
     (case add_entry env d of
        None \<Rightarrow>
          emit (Added d) ((emit (RunInteraction d) w)\<lparr>pysmurf_files := pysmurf_files w @ [d]\<rparr>)
      | Some e \<Rightarrow> emit (NotAdded d) (emit (RunInteraction d) w))"

text \<open>
  \<^verbatim>\<open>PysmurfMonitor.datagramReceived\<close>. The result is the exception that escapes, if any,
  and the world as it is then.
\<close>

definition datagramReceived ::
  "pm_env \<Rightarrow> PysmurfMonitor \<Rightarrow> string \<Rightarrow> pm_world \<Rightarrow> exn option \<times> pm_world" where
  "datagramReceived env self data_in w =
     (case json_loads env data_in of
        Inl e \<Rightarrow> (Some e, w)
      | Inr data \<Rightarrow>
     (case subscript data ''type'' of
        Inl e \<Rightarrow> (Some e, w)
      | Inr ty \<Rightarrow>
     if ty \<noteq> PStr ''data_file'' then (None, w) else
     (case subscript data ''payload'' of
        Inl e \<Rightarrow> (Some e, w)
      | Inr payload \<Rightarrow>
     (case subscript payload ''path'' of
        Inl e \<Rightarrow> (Some e, w)
      | Inr fname \<Rightarrow>
     (let w1 = emit (NewFile fname) w in
      case payload of
        PDict d \<Rightarrow>
          (case subscript (PDict d) ''timestamp'' of
             Inl e \<Rightarrow> (Some e, w1)
           | Inr ts \<Rightarrow>
          (case utcfromtimestamp env ts of
             Inl e \<Rightarrow> (Some e, w1)
           | Inr t \<Rightarrow>
          (let d1 = AList.update ''timestamp'' t d in
           case subscript (PDict d1) ''path'' of
             Inl e \<Rightarrow> (Some e, w1)
           | Inr path \<Rightarrow>
          (let w2 = emit (ComputeMd5 path) w1 in
           case get_md5sum env path of
             Inl e \<Rightarrow> (Some e, w2)
           | Inr md5 \<Rightarrow>
          (let d2 = AList.update ''md5sum'' (PStr md5) d1 in
           case subscript (PDict d2) ''plot'' of
             Inl e \<Rightarrow> (Some e, w2)
           | Inr plot \<Rightarrow>
          (case py_int env plot of
             Inl e \<Rightarrow> (Some e, w2)
           | Inr n \<Rightarrow>
          (let d3 = AList.update ''plot'' n d2;
               d4 = dict_update d3 (base_file_info self)
           in (None, run_interaction env d4 w2))))))))
      | _ \<Rightarrow> (Some TypeError, w1))))))"

text \<open>
  A sample datagram for a new data file whose payload carries a \<^verbatim>\<open>copied\<close> field of its own,
  a monitor at the address \<^verbatim>\<open>obs.smurf2\<close>, and the entry written for that datagram.
\<close>

definition demo_pm_env :: pm_env where
  "demo_pm_env =
     \<lparr>json_loads = (\<lambda>s. Inr (PDict
         [(''type'', PStr ''data_file''),
          (''payload'', PDict [(''path'', PStr ''/data/a.dat''),
                               (''timestamp'', PInt 1600000000),
                               (''plot'', PBool False),
                               (''copied'', PInt 1)])])),
      utcfromtimestamp = (\<lambda>v. case v of PInt i \<Rightarrow> Inr (PDatetime (of_int i))
                               | PFloat x \<Rightarrow> Inr (PDatetime x) | _ \<Rightarrow> Inl TypeError),
      py_int = (\<lambda>v. case v of PBool b \<Rightarrow> Inr (PInt (if b then 1 else 0))
                     | PInt i \<Rightarrow> Inr (PInt i) | _ \<Rightarrow> Inl TypeError),
      get_md5sum = (\<lambda>p. Inr ''0cc175b9c0f1b6a831c399e269772661''),
      add_entry = (\<lambda>d. None)\<rparr>"

definition demo_monitor :: PysmurfMonitor where
  "demo_monitor =
     \<lparr>create_table = True,
      base_file_info = [(''site'', PStr ''obs''), (''instance_id'', PStr ''smurf2''),
                        (''copied'', PInt 0), (''failed_copy_attempts'', PInt 0),
                        (''socs_version'', PStr ''0.4'')],
      sql_config = [(''user'', ''u''), (''passwd'', ''p''), (''database'', ''files'')]\<rparr>"

definition demo_entry :: pydict where
  "demo_entry = [(''path'', PStr ''/data/a.dat''),
                 (''timestamp'', PDatetime 1600000000),
                 (''plot'', PInt 0),
                 (''copied'', PInt 0),
                 (''md5sum'', PStr ''0cc175b9c0f1b6a831c399e269772661''),
                 (''site'', PStr ''obs''), (''instance_id'', PStr ''smurf2''),
                 (''failed_copy_attempts'', PInt 0),
                 (''socs_version'', PStr ''0.4'')]"

section \<open>SupRsync agent: \<^verbatim>\<open>agents/suprsync/suprsync.py\<close>\<close>

subsection \<open>File records\<close>

text \<open>
  Modelled from the spec: the class \<^verbatim>\<open>SupRsyncFile\<close> of \<^verbatim>\<open>socs.db.suprsync\<close> is not among
  the sources. The record has the fields of the spec's data model; \<open>copied\<close> is the
  tri-state "not yet attempted / attempted-and-verified / permanently failed".
\<close>

datatype copy_status = Unattempted | Verified | PermanentlyFailed

record SupRsyncFile =
  file_id :: nat
  archive_name :: string
  local_path :: string
  local_md5sum :: string
  remote_path :: string
  timestamp :: real
  copied :: copy_status
  failed_copy_attempts :: nat
  removed :: bool

type_synonym store = "nat \<rightharpoonup> SupRsyncFile"

subsection \<open>The run loop as a machine\<close>

text \<open>
  \<^verbatim>\<open>SupRsync.run\<close> runs in a worker thread while \<^verbatim>\<open>SupRsync._stop\<close> is called from
  another, so the loop is a machine that takes one step at a time, and \<^verbatim>\<open>_stop\<close> may
  come between any two steps. The program counter names the statement about to run:
  \<^item> \<open>Idle\<close>: \<^verbatim>\<open>run\<close> has not been called;
  \<^item> \<open>LoopTest\<close>: \<^verbatim>\<open>while self.running\<close>;
  \<^item> \<open>OpenSession\<close>: \<^verbatim>\<open>with srfm.Session.begin() as session\<close>;
  \<^item> \<open>GetNextFile\<close>: \<^verbatim>\<open>file = srfm.get_next_file(...)\<close> and \<^verbatim>\<open>if file is not None\<close>;
  \<^item> \<open>HandleFile file\<close>: \<^verbatim>\<open>handler.handle_file(file, session)\<close> inside the \<^verbatim>\<open>try\<close>;
  \<^item> \<open>LogTimeout file\<close>: \<^verbatim>\<open>self.log.error(...)\<close> in the \<^verbatim>\<open>except\<close> branch;
  \<^item> \<open>TimeoutWait\<close>: \<^verbatim>\<open>time.sleep(self.timeout_wait)\<close>;
  \<^item> \<open>FixedSleep\<close>: \<^verbatim>\<open>time.sleep(3)\<close>, the last statement inside the \<^verbatim>\<open>with\<close> block;
  \<^item> \<open>CloseSession\<close>: leaving the \<^verbatim>\<open>with\<close> block normally;
  \<^item> \<open>Stopped\<close>: the loop condition was false and \<^verbatim>\<open>run\<close> returned;
  \<^item> \<open>Crashed e\<close>: the exception \<open>e\<close> left \<^verbatim>\<open>run\<close>.
\<close>

datatype pc =
    Idle
  | LoopTest
  | OpenSession
  | GetNextFile
  | HandleFile SupRsyncFile
  | LogTimeout SupRsyncFile
  | TimeoutWait
  | FixedSleep
  | CloseSession
  | Stopped
  | Crashed exn

text \<open>What the loop does that can be seen from outside, in order.\<close>

datatype sr_event =
    TestRunning bool
  | Begin
  | GetNext
  | Handle nat
  | LogError string
  | Slept real
  | Commit
  | Rollback

text \<open>
  \<^verbatim>\<open>--timeout-wait\<close> is parsed by \<^verbatim>\<open>float\<close>, which also accepts \<^verbatim>\<open>inf\<close>, \<^verbatim>\<open>-inf\<close> and
  \<^verbatim>\<open>nan\<close>. A finite float is the real number it stands for.
\<close>

datatype pyfloat = Finite real | PosInf | NegInf | NaN

text \<open>
  \<^verbatim>\<open>time.sleep(secs)\<close> for a float: CPython turns the duration into a signed 64-bit count
  of nanoseconds. It raises \<^verbatim>\<open>ValueError\<close> for a NaN, \<^verbatim>\<open>OverflowError\<close> for a duration
  outside the range of that count (\<open>sleep_max\<close> seconds, and the infinities), and
  \<^verbatim>\<open>ValueError\<close> for a negative duration inside it; otherwise it sleeps and returns. The
  result is the exception, or the time slept.
\<close>

definition sleep_max :: real where
  "sleep_max = 2 ^ 63 / 10 ^ 9"

definition time_sleep :: "pyfloat \<Rightarrow> exn + real" where
  "time_sleep secs =
     (case secs of
        NaN \<Rightarrow> Inl ValueError
      | PosInf \<Rightarrow> Inl OverflowError
      | NegInf \<Rightarrow> Inl OverflowError
      | Finite d \<Rightarrow>
          (if sleep_max \<le> d \<or> d < - sleep_max then Inl OverflowError
           else if d < 0 then Inl ValueError
           else Inr d))"

text \<open>
  The state: \<^verbatim>\<open>self.running\<close> and \<^verbatim>\<open>self.timeout_wait\<close>, the status of the agent's
  operation session (\<^verbatim>\<open>session.set_status\<close>), the program counter of \<^verbatim>\<open>run\<close>, whether a
  database transaction is open, the file object changed in the open transaction and not
  yet written, the committed table, and the events so far. The other attributes set by
  \<^verbatim>\<open>__init__\<close> are only passed on to \<^verbatim>\<open>get_next_file\<close> and to the file handler.
\<close>

record suprsync =
  running :: bool
  timeout_wait :: pyfloat
  op_status :: string
  pc :: pc
  in_txn :: bool
  dirty :: "SupRsyncFile option"
  db :: store
  trace :: "sr_event list"

text \<open>
  \<^verbatim>\<open>SupRsyncFilesManager.get_next_file\<close> and \<^verbatim>\<open>SupRsyncFileHandler.handle_file\<close> live in
  \<^verbatim>\<open>socs.db.suprsync\<close>, which is not among the sources, and what they do depends on the
  database, the clock, the file system and the network. The loop is modelled for any
  behaviour of the two: at each step a \<open>world\<close> says what \<^verbatim>\<open>get_next_file\<close> answers
  on the committed table (no file, a file, or an exception) and what \<^verbatim>\<open>handle_file\<close> does
  to the file object (the object as it leaves it, and the exception it raises, if any).
\<close>

datatype select_result = NoFile | NextFile SupRsyncFile | SelectFailed exn

record world =
  sel :: "store \<Rightarrow> select_result"
  hdl :: "SupRsyncFile \<Rightarrow> SupRsyncFile \<times> exn option"

text \<open>The state after \<^verbatim>\<open>SupRsync.__init__\<close>, with the table as it is.\<close>

definition SupRsync_init :: "pyfloat \<Rightarrow> store \<Rightarrow> suprsync" where
  "SupRsync_init tw table =
     \<lparr>running = False, timeout_wait = tw, op_status = ''starting'', pc = Idle,
      in_txn = False, dirty = None, db = table, trace = []\<rparr>"

text \<open>
  The start of \<^verbatim>\<open>run\<close>, up to the loop: \<^verbatim>\<open>self.running = True\<close> and
  \<^verbatim>\<open>session.set_status('running')\<close>.
\<close>

definition run_begin :: "suprsync \<Rightarrow> suprsync" where
  "run_begin s = s\<lparr>running := True, op_status := ''running'', pc := LoopTest\<rparr>"

text \<open>\<^verbatim>\<open>SupRsync._stop\<close>: two assignments, and it returns.\<close>

definition stop :: "suprsync \<Rightarrow> suprsync" where
  "stop s = s\<lparr>running := False, op_status := ''stopping''\<rparr>"

text \<open>
  An exception that nothing catches inside the \<^verbatim>\<open>with\<close> block: the session's context
  manager rolls the transaction back, the changes to the file object are dropped, and the
  exception leaves the loop and \<^verbatim>\<open>run\<close>.
\<close>

definition raise_in_session :: "exn \<Rightarrow> suprsync \<Rightarrow> suprsync" where
  "raise_in_session e s =
     s\<lparr>pc := Crashed e, in_txn := False, dirty := None, trace := trace s @ [Rollback]\<rparr>"

text \<open>
  One step of \<^verbatim>\<open>run\<close>. The cooldown \<^verbatim>\<open>time.sleep(self.timeout_wait)\<close> runs in the
  \<^verbatim>\<open>except\<close> branch, inside the \<^verbatim>\<open>with\<close> block, so an exception it raises rolls the
  transaction back and leaves \<^verbatim>\<open>run\<close>; \<^verbatim>\<open>time.sleep(3)\<close> always sleeps. Leaving the
  \<^verbatim>\<open>with\<close> block commits: the changed file object is written to the table.
\<close>

definition step :: "world \<Rightarrow> suprsync \<Rightarrow> suprsync" where
  "step orc s =
     (case pc s of
        Idle \<Rightarrow> s
      | LoopTest \<Rightarrow>
          (if running s
           then s\<lparr>pc := OpenSession, trace := trace s @ [TestRunning True]\<rparr>
           else s\<lparr>pc := Stopped, trace := trace s @ [TestRunning False]\<rparr>)
      | OpenSession \<Rightarrow>
          s\<lparr>pc := GetNextFile, in_txn := True, dirty := None, trace := trace s @ [Begin]\<rparr>
      | GetNextFile \<Rightarrow>
          (case sel orc (db s) of
             NoFile \<Rightarrow> s\<lparr>pc := FixedSleep, trace := trace s @ [GetNext]\<rparr>
           | NextFile file \<Rightarrow> s\<lparr>pc := HandleFile file, trace := trace s @ [GetNext]\<rparr>
           | SelectFailed e \<Rightarrow> raise_in_session e (s\<lparr>trace := trace s @ [GetNext]\<rparr>))
      | HandleFile file \<Rightarrow>
          (case hdl orc file of
             (file', None) \<Rightarrow>
               s\<lparr>pc := FixedSleep, dirty := Some file',
                 trace := trace s @ [Handle (file_id file)]\<rparr>
           | (file', Some e) \<Rightarrow>
               (if e = TimeoutExpired
                then s\<lparr>pc := LogTimeout file', dirty := Some file',
                       trace := trace s @ [Handle (file_id file)]\<rparr>
                else raise_in_session e (s\<lparr>trace := trace s @ [Handle (file_id file)]\<rparr>)))
      | LogTimeout file \<Rightarrow>
          s\<lparr>pc := TimeoutWait,
            trace := trace s @ [LogError (''Timed out when processing '' @ local_path file)]\<rparr>
      | TimeoutWait \<Rightarrow>
          (case time_sleep (timeout_wait s) of
             Inl e \<Rightarrow> raise_in_session e s
           | Inr d \<Rightarrow> s\<lparr>pc := FixedSleep, trace := trace s @ [Slept d]\<rparr>)
      | FixedSleep \<Rightarrow> s\<lparr>pc := CloseSession, trace := trace s @ [Slept 3]\<rparr>
      | CloseSession \<Rightarrow>
          s\<lparr>pc := LoopTest, in_txn := False, dirty := None,
            db := (case dirty s of None \<Rightarrow> db s | Some file \<Rightarrow> (db s)(file_id file \<mapsto> file)),
            trace := trace s @ [Commit]\<rparr>
      | Stopped \<Rightarrow> s
      | Crashed e \<Rightarrow> s)"

text \<open>Several steps, one world for each.\<close>

fun steps :: "world list \<Rightarrow> suprsync \<Rightarrow> suprsync" where
  "steps [] s = s"
| "steps (orc # orcs) s = steps orcs (step orc s)"

text \<open>An iteration of the loop is in flight: it has passed the loop test and not yet ended.\<close>

definition in_flight :: "suprsync \<Rightarrow> bool" where
  "in_flight s \<longleftrightarrow>
     (case pc s of
        OpenSession \<Rightarrow> True | GetNextFile \<Rightarrow> True | HandleFile f \<Rightarrow> True
      | LogTimeout f \<Rightarrow> True | TimeoutWait \<Rightarrow> True | FixedSleep \<Rightarrow> True
      | CloseSession \<Rightarrow> True | _ \<Rightarrow> False)"

text \<open>The statements inside the \<^verbatim>\<open>with\<close> block.\<close>

definition session_open :: "pc \<Rightarrow> bool" where
  "session_open p \<longleftrightarrow>
     (case p of
        GetNextFile \<Rightarrow> True | HandleFile f \<Rightarrow> True | LogTimeout f \<Rightarrow> True
      | TimeoutWait \<Rightarrow> True | FixedSleep \<Rightarrow> True | CloseSession \<Rightarrow> True | _ \<Rightarrow> False)"

text \<open>
  An upper bound on the number of steps from a statement of the loop to the return of
  \<^verbatim>\<open>run\<close>, once \<^verbatim>\<open>self.running\<close> is false.
\<close>

definition togo :: "pc \<Rightarrow> nat" where
  "togo p =
     (case p of
        OpenSession \<Rightarrow> 8 | GetNextFile \<Rightarrow> 7 | HandleFile f \<Rightarrow> 6 | LogTimeout f \<Rightarrow> 5
      | TimeoutWait \<Rightarrow> 4 | FixedSleep \<Rightarrow> 3 | CloseSession \<Rightarrow> 2 | LoopTest \<Rightarrow> 1 | _ \<Rightarrow> 0)"

text \<open>
  A world in which the database answers and the handler raises nothing but
  \<^verbatim>\<open>subprocess.TimeoutExpired\<close>.
\<close>

definition calm :: "world \<Rightarrow> bool" where
  "calm w \<longleftrightarrow>
     (\<forall>t e. sel w t \<noteq> SelectFailed e) \<and>
     (\<forall>f. snd (hdl w f) = None \<or> snd (hdl w f) = Some TimeoutExpired)"

text \<open>The steps taken with the worlds \<open>ws\<close> from \<open>s\<close> all start away from the loop test.\<close>

fun uninterrupted :: "world list \<Rightarrow> suprsync \<Rightarrow> bool" where
  "uninterrupted [] s = True"
| "uninterrupted (w # ws) s = (pc s \<noteq> LoopTest \<and> uninterrupted ws (step w s))"

text \<open>The event of a test of the loop condition.\<close>

fun is_test :: "sr_event \<Rightarrow> bool" where
  "is_test (TestRunning b) = True"
| "is_test ev = False"

text \<open>The time slept in a sequence of events.\<close>

fun slept :: "sr_event list \<Rightarrow> real" where
  "slept [] = 0"
| "slept (Slept d # evs) = d + slept evs"
| "slept (ev # evs) = slept evs"

subsection \<open>The file handler\<close>

text \<open>
  Modelled from the spec: \<^verbatim>\<open>SupRsyncFileHandler.handle_file\<close> is not among the sources.
  What the copy command and the deletion of the local file do is given from outside: the
  copy exits with status zero and leaves a remote file with some checksum, exits non-zero,
  or exceeds the copy timeout; the deletion succeeds or fails.
\<close>

datatype transfer = CopyExit0 string | CopyNonZero | CopyTimedOut

datatype removal = Deleted | DeleteFailed

record outside =
  transfer :: transfer
  removal :: removal

text \<open>
  Modelled from the spec: a failed attempt increments \<open>failed_copy_attempts\<close> exactly
  once, and once the counter reaches the configured ceiling the record is marked
  permanently failed.
\<close>

definition count_failure :: "nat \<Rightarrow> SupRsyncFile \<Rightarrow> SupRsyncFile" where
  "count_failure max_attempts file =
     file\<lparr>failed_copy_attempts := failed_copy_attempts file + 1,
          copied := (if max_attempts \<le> failed_copy_attempts file + 1 then PermanentlyFailed
                     else copied file)\<rparr>"

text \<open>
  Modelled from the spec (Transfer Executor, Verifier, Retention Reaper): a record that
  is not verified-copied is copied and verified against \<open>local_md5sum\<close>; a non-zero exit,
  a timeout and a checksum mismatch each count as one failed attempt, and the timeout is
  raised to the loop as \<^verbatim>\<open>subprocess.TimeoutExpired\<close>; a verified record is the deletion
  candidate, marked removed when the deletion succeeds and left as it is otherwise.
\<close>

definition handle_file :: "nat \<Rightarrow> outside \<Rightarrow> SupRsyncFile \<Rightarrow> SupRsyncFile \<times> exn option" where
  "handle_file max_attempts out file =
     (if copied file = Verified then
        (case removal out of
           Deleted \<Rightarrow> (file\<lparr>removed := True\<rparr>, None)
         | DeleteFailed \<Rightarrow> (file, None))
      else
        (case transfer out of
           CopyTimedOut \<Rightarrow> (count_failure max_attempts file, Some TimeoutExpired)
         | CopyNonZero \<Rightarrow> (count_failure max_attempts file, None)
         | CopyExit0 md5 \<Rightarrow>
             (if md5 = local_md5sum file then (file\<lparr>copied := Verified\<rparr>, None)
              else (count_failure max_attempts file, None))))"

subsection \<open>Sample runs\<close>

definition demo_file :: SupRsyncFile where
  "demo_file = \<lparr>file_id = 7, archive_name = ''smurf'', local_path = ''/data/a.dat'',
     local_md5sum = ''0cc175b9c0f1b6a831c399e269772661'', remote_path = ''/archive/a.dat'',
     timestamp = 1600000000, copied = Unattempted, failed_copy_attempts = 0, removed = False\<rparr>"

text \<open>The database cannot be reached.\<close>

definition store_down :: world where
  "store_down = \<lparr>sel = (\<lambda>t. SelectFailed OperationalError), hdl = (\<lambda>f. (f, None))\<rparr>"

text \<open>No file needs handling.\<close>

definition nothing_to_do :: world where
  "nothing_to_do = \<lparr>sel = (\<lambda>t. NoFile), hdl = (\<lambda>f. (f, None))\<rparr>"

text \<open>The sample file is next, and its copy succeeds and verifies.\<close>

definition copy_ok :: world where
  "copy_ok = \<lparr>sel = (\<lambda>t. NextFile demo_file), hdl = (\<lambda>f. (f\<lparr>copied := Verified\<rparr>, None))\<rparr>"

text \<open>The sample file is next, and its copy exceeds the timeout; the ceiling is 5.\<close>

definition copy_slow :: world where
  "copy_slow = \<lparr>sel = (\<lambda>t. NextFile demo_file),
                 hdl = handle_file 5 \<lparr>transfer = CopyTimedOut, removal = Deleted\<rparr>\<rparr>"

text \<open>\<^verbatim>\<open>run\<close> has just been called, with a cooldown of 20 seconds and an empty table.\<close>

definition demo_start :: suprsync where
  "demo_start = run_begin (SupRsync_init (Finite 20) Map.empty)"

text \<open>The states reached from there after the loop test and the opening of the session.\<close>

definition at_select :: suprsync where
  "at_select = steps [store_down, store_down] demo_start"

definition at_fixed_sleep :: suprsync where
  "at_fixed_sleep = steps [nothing_to_do, nothing_to_do, nothing_to_do] demo_start"

definition at_handle :: suprsync where
  "at_handle = steps [copy_ok, copy_ok, copy_ok] demo_start"

definition at_handle_slow :: suprsync where
  "at_handle_slow = steps [copy_slow, copy_slow, copy_slow] demo_start"

text \<open>
  The agent started with \<^verbatim>\<open>--timeout-wait -1\<close> and the sample file in the table, at the
  handling of that file.
\<close>

definition at_handle_hasty :: suprsync where
  "at_handle_hasty =
     steps [copy_slow, copy_slow, copy_slow]
       (run_begin (SupRsync_init (Finite (- 1)) [7 \<mapsto> demo_file]))"

subsection \<open>Several engines on one store\<close>

text \<open>
  Modelled from the spec: the record store (\<^verbatim>\<open>SupRsyncFilesManager\<close> and its session
  factory, in \<^verbatim>\<open>socs.db.suprsync\<close>) is not among the sources. By the spec it is a table
  with atomic read-modify-write under transaction locking: beginning a transaction takes
  the store's lock, commit and rollback release it, and an engine that begins a
  transaction while another one holds the lock waits. A cluster is the store's lock and
  table together with the engines that run against it, each with the state of its own run
  loop.
\<close>

record cluster =
  holder :: "nat option"
  shared :: store
  engines :: "nat \<Rightarrow> suprsync"

text \<open>
  One step of engine \<open>i\<close>: it works on the shared table; at the opening of its session
  it waits while the lock is held; otherwise it takes its step, holds the lock when that
  step leaves it inside its transaction, and frees the lock when the step ends the
  transaction.
\<close>

definition engine_step :: "nat \<Rightarrow> world \<Rightarrow> cluster \<Rightarrow> cluster" where
  "engine_step i w c =
     (let s = (engines c i)\<lparr>db := shared c\<rparr> in
      if pc s = OpenSession \<and> holder c \<noteq> None then c
      else
        (let s' = step w s in
         c\<lparr>holder := (if in_txn s' then Some i else if in_txn s then None else holder c),
           shared := db s',
           engines := (engines c)(i := s')\<rparr>))"

text \<open>A schedule says which engine steps next, and in which world.\<close>

fun run_cluster :: "(nat \<times> world) list \<Rightarrow> cluster \<Rightarrow> cluster" where
  "run_cluster [] c = c"
| "run_cluster ((i, w) # sched) c = run_cluster sched (engine_step i w c)"

text \<open>Every engine has just called \<^verbatim>\<open>run\<close>; engine \<open>i\<close> has the cooldown \<open>tw i\<close>.\<close>

definition cluster_init :: "(nat \<Rightarrow> pyfloat) \<Rightarrow> store \<Rightarrow> cluster" where
  "cluster_init tw table =
     \<lparr>holder = None, shared = table,
      engines = (\<lambda>i. run_begin (SupRsync_init (tw i) table))\<rparr>"

text \<open>
  A schedule of two engines: engine 0 tests its flag, opens its session and selects the
  sample file; engine 1 tests its flag and then tries twice to open its session.
\<close>

definition demo_schedule :: "(nat \<times> world) list" where
  "demo_schedule = [(0, copy_ok), (0, copy_ok), (0, copy_ok), (1, copy_ok), (1, copy_ok), (1, copy_ok)]"

definition demo_cluster :: cluster where
  "demo_cluster = run_cluster demo_schedule (cluster_init (\<lambda>i. Finite 20) Map.empty)"

text \<open>
  What holds of a cluster at all times: an engine is inside its transaction exactly when
  its run loop is inside the \<^verbatim>\<open>with\<close> block, and exactly then it is the holder of the
  store's lock.
\<close>

definition cluster_inv :: "cluster \<Rightarrow> bool" where
  "cluster_inv c \<longleftrightarrow>
     (\<forall>i. in_txn (engines c i) = session_open (pc (engines c i)) \<and>
          (in_txn (engines c i) \<longleftrightarrow> holder c = Some i))"

section \<open>Properties of \<^verbatim>\<open>process_action\<close>\<close>










section \<open>Properties of \<^verbatim>\<open>HWPPCUAgent.main\<close>\<close>

lemma cancel_queued_eq:
  "cancel_queued q l = l @ map (\<lambda>a. Errback (deferred a) (Exception ''Action cancelled'')) q"
  by (induction q arbitrary: l) simp_all

lemma process_actions_log:
  "process_actions drv q p (l @ l') =
     (case process_actions drv q p l' of (p', l2) \<Rightarrow> (p', l @ l2))"
proof (induction q arbitrary: p l')
  case Nil
  show ?case by simp
next
  case (Cons a q)
  obtain r p1 where pa: "process_action drv a p = (r, p1)"
    by (cases "process_action drv a p")
  show ?case
  proof (cases r)
    case (Inl e)
    with pa Cons.IH [of p1 "l' @ [Errback (deferred a) e]"] show ?thesis by simp
  next
    case (Inr res)
    with pa Cons.IH [of p1 "l' @ [Callback (deferred a) res]"] show ?thesis by simp
  qed
qed

lemma logged_simps [simp]:
  "pcu (logged l s) = pcu s" "action_queue (logged l s) = action_queue s"
  "session_status (logged l s) = session_status s" "last_daq (logged l s) = last_daq s"
  "elog (logged l s) = l @ elog s"
  "(logged l s)\<lparr>session_status := x\<rparr> = logged l (s\<lparr>session_status := x\<rparr>)"
  "(logged l s)\<lparr>last_daq := y\<rparr> = logged l (s\<lparr>last_daq := y\<rparr>)"
  "(logged l s)\<lparr>pcu := z\<rparr> = logged l (s\<lparr>pcu := z\<rparr>)"
  by (simp_all add: logged_def)

lemma get_and_publish_data_log:
  "get_and_publish_data drv t (logged l s) =
     (case get_and_publish_data drv t s of (r, s') \<Rightarrow> (r, logged l s'))"
  by (simp add: get_and_publish_data_def logged_def split: prod.splits option.splits)

lemma process_queue_log:
  "process_queue drv arr (logged l s) = logged l (process_queue drv arr s)"
  by (simp add: process_queue_def process_actions_log split: prod.splits)

lemma nap_log: "nap (logged l s) = logged l (nap s)"
  by (simp add: nap_def logged_def)

lemma poll_body_log:
  "poll_body drv t (logged l s) =
     (case poll_body drv t s of (r, s') \<Rightarrow> (r, logged l s'))"
  by (simp add: poll_body_def get_and_publish_data_log process_queue_log nap_log
      split: prod.splits option.splits)

lemma poll_log:
  "poll drv ts (logged l s) = (case poll drv ts s of (out, s') \<Rightarrow> (out, logged l s'))"
proof (induction ts arbitrary: s)
  case Nil
  show ?case by simp
next
  case (Cons t ts)
  define s0 where "s0 = (if stop_requested t then s\<lparr>session_status := ''stopping''\<rparr> else s)"
  have s0: "(if stop_requested t then (logged l s)\<lparr>session_status := ''stopping''\<rparr> else logged l s)
      = logged l s0"
    by (simp add: s0_def)
  obtain r s1 where body: "poll_body drv t s0 = (r, s1)"
    by (cases "poll_body drv t s0")
  show ?case
  proof (cases "session_status s0 = ''starting'' \<or> session_status s0 = ''running''")
    case True
    then show ?thesis
      using body Cons.IH [of s1]
      by (cases r) (simp_all add: s0 s0_def [symmetric] poll_body_log)
  next
    case False
    then show ?thesis
      by (simp add: s0 s0_def [symmetric] invoke_def split: option.splits)
  qed
qed

lemma main_connected:
  "connect env = None \<Longrightarrow>
   main drv env q =
     (case poll drv (ticks env)
             \<lparr>pcu = \<lparr>issued = []\<rparr>, action_queue = [], session_status = ''running'',
              last_daq = 0,
              elog = map (\<lambda>a. Errback (deferred a) (Exception ''Action cancelled'')) (early env)\<rparr> of
        (out, s') \<Rightarrow>
          (out, logged (SetStatus ''running'' #
                  map (\<lambda>a. Errback (deferred a) (Exception ''Action cancelled'')) q) s'))"
  using poll_log [of drv "ticks env"
      "SetStatus ''running'' # map (\<lambda>a. Errback (deferred a) (Exception ''Action cancelled'')) q"
      "\<lparr>pcu = \<lparr>issued = []\<rparr>, action_queue = [], session_status = ''running'',
              last_daq = 0,
              elog = map (\<lambda>a. Errback (deferred a) (Exception ''Action cancelled'')) (early env)\<rparr>"]
  by (simp add: main_def cancel_queued_eq logged_def)

text \<open>
  Claim C10. When \<^verbatim>\<open>main\<close> has connected to the PCU, the first thing it does after
  setting the session status is to fire, with \<^verbatim>\<open>Exception("Action cancelled")\<close>, the
  errback of every action that was on the queue when it started, in queue order; all that
  follows (the polling loop) is what a run started with an empty queue does, and the calls
  that reach the PCU are the same as in that run: no action queued before the start is
  sent to the hardware. When the connection fails, \<^verbatim>\<open>main\<close> raises before it touches the
  queue or the PCU.
\<close>

theorem main_cancels_queued:
  assumes "main drv env q = (out, s)"
      and "main drv env [] = (out0, s0)"
  shows "(connect env = None \<longrightarrow>
            out = out0 \<and> pcu s = pcu s0 \<and>
            elog s = SetStatus ''running'' #
                     map (\<lambda>a. Errback (deferred a) (Exception ''Action cancelled'')) q @
                     tl (elog s0))
       \<and> (\<forall>e. connect env = Some e \<longrightarrow>
            out = Raised e \<and> issued (pcu s) = [] \<and> elog s = [] \<and> action_queue s = q)"
proof (intro conjI allI impI)
  fix e assume "connect env = Some e"
  with assms(1) show "out = Raised e" "issued (pcu s) = []" "elog s = []" "action_queue s = q"
    by (auto simp: main_def)
next
  assume c: "connect env = None"
  obtain o' s' where p: "poll drv (ticks env)
             \<lparr>pcu = \<lparr>issued = []\<rparr>, action_queue = [], session_status = ''running'',
              last_daq = 0,
              elog = map (\<lambda>a. Errback (deferred a) (Exception ''Action cancelled'')) (early env)\<rparr>
           = (o', s')"
    by (cases "poll drv (ticks env)
             \<lparr>pcu = \<lparr>issued = []\<rparr>, action_queue = [], session_status = ''running'',
              last_daq = 0,
              elog = map (\<lambda>a. Errback (deferred a) (Exception ''Action cancelled'')) (early env)\<rparr>")
  from main_connected [OF c, of drv q] assms(1) p
  have s: "out = o'" "s = logged (SetStatus ''running'' #
                  map (\<lambda>a. Errback (deferred a) (Exception ''Action cancelled'')) q) s'"
    by simp_all
  from main_connected [OF c, of drv "[]"] assms(2) p
  have s0: "out0 = o'" "s0 = logged [SetStatus ''running''] s'"
    by simp_all
  from s s0 show "out = out0" "pcu s = pcu s0"
    "elog s = SetStatus ''running'' #
                     map (\<lambda>a. Errback (deferred a) (Exception ''Action cancelled'')) q @
                     tl (elog s0)"
    by simp_all
qed

lemma demo_run_queued:
  "main quiet_driver demo_env [SendCommand 4 ''on_2'', SendCommand 5 ''stop''] =
     (Returned,
      \<lparr>pcu = \<lparr>issued = [GetStatus, RelayOff 5, RelayOff 6, RelayOff 7,
                         RelayOn 0, RelayOn 1, RelayOn 2, Close]\<rparr>,
       action_queue = [], session_status = ''stopping'', last_daq = 100,
       elog = [SetStatus ''running'',
               Errback 4 (Exception ''Action cancelled''),
               Errback 5 (Exception ''Action cancelled''),
               Publish ''ok'' 100,
               Callback 3 (Some \<lparr>off_channel = [5, 6, 7], on_channel = [0, 1, 2]\<rparr>),
               Sleep (1 / 10)]\<rparr>)"
  by (simp add: main_def demo_env_def quiet_driver_def poll_body_def get_and_publish_data_def
      process_queue_def process_action_def command_channels_def invoke_def nap_def)

lemma demo_run_empty:
  "main quiet_driver demo_env [] =
     (Returned,
      \<lparr>pcu = \<lparr>issued = [GetStatus, RelayOff 5, RelayOff 6, RelayOff 7,
                         RelayOn 0, RelayOn 1, RelayOn 2, Close]\<rparr>,
       action_queue = [], session_status = ''stopping'', last_daq = 100,
       elog = [SetStatus ''running'',
               Publish ''ok'' 100,
               Callback 3 (Some \<lparr>off_channel = [5, 6, 7], on_channel = [0, 1, 2]\<rparr>),
               Sleep (1 / 10)]\<rparr>)"
  by (simp add: main_def demo_env_def quiet_driver_def poll_body_def get_and_publish_data_def
      process_queue_def process_action_def command_channels_def invoke_def nap_def)

theorem main_cancels_queued_witness:
  "connect demo_env = None \<and>
   fst (main quiet_driver demo_env [SendCommand 4 ''on_2'', SendCommand 5 ''stop'']) = Returned \<and>
   issued (pcu (snd (main quiet_driver demo_env [SendCommand 4 ''on_2'', SendCommand 5 ''stop''])))
     = [GetStatus, RelayOff 5, RelayOff 6, RelayOff 7, RelayOn 0, RelayOn 1, RelayOn 2, Close] \<and>
   elog (snd (main quiet_driver demo_env [SendCommand 4 ''on_2'', SendCommand 5 ''stop'']))
     = [SetStatus ''running'',
        Errback 4 (Exception ''Action cancelled''),
        Errback 5 (Exception ''Action cancelled''),
        Publish ''ok'' 100,
        Callback 3 (Some \<lparr>off_channel = [5, 6, 7], on_channel = [0, 1, 2]\<rparr>),
        Sleep (1 / 10)]"
proof -
  have c: "connect demo_env = None"
    by (simp add: demo_env_def)
  from main_cancels_queued [OF demo_run_queued demo_run_empty] c show ?thesis
    by (simp add: demo_run_queued demo_run_empty)
qed

section \<open>Properties of the Pysmurf monitor\<close>

lemma map_of_dict_update:
  "map_of (dict_update d other) k =
     (case map_of (rev other) k of Some v \<Rightarrow> Some v | None \<Rightarrow> map_of d k)"
  by (induction d other rule: dict_update.induct) (auto simp: update_conv' split: option.splits)

lemma init_base_file_info:
  "PysmurfMonitor_init addr ct ver environ = Inr self \<Longrightarrow>
   \<exists>site inst. base_file_info self =
      [(''site'', PStr site), (''instance_id'', PStr inst), (''copied'', PInt 0),
       (''failed_copy_attempts'', PInt 0), (''socs_version'', PStr ver)]"
  by (auto simp: PysmurfMonitor_init_def split: list.splits option.splits)

lemma datagramReceived_cases:
  assumes "datagramReceived env self data_in w = (r, w')"
  shows "(pysmurf_files w' = pysmurf_files w \<and> (\<exists>evs. plog w' = plog w @ evs \<and> (\<forall>d. RunInteraction d \<notin> set evs)))
     \<or> (\<exists>data payload path ts t md5 plot n d fin.
          json_loads env data_in = Inr data \<and> subscript data ''type'' = Inr (PStr ''data_file'') \<and>
          subscript data ''payload'' = Inr (PDict payload) \<and> map_of payload ''path'' = Some path \<and>
          get_md5sum env path = Inr md5 \<and>
          d = dict_update (AList.update ''plot'' n (AList.update ''md5sum'' (PStr md5)
                (AList.update ''timestamp'' t payload))) (base_file_info self) \<and>
          r = None \<and>
          plog w' = plog w @ [NewFile path, ComputeMd5 path, RunInteraction d, fin] \<and>
          ((fin = Added d \<and> pysmurf_files w' = pysmurf_files w @ [d]) \<or>
           (fin = NotAdded d \<and> pysmurf_files w' = pysmurf_files w)))"
  using assms
  apply (simp add: datagramReceived_def Let_def subscript_def run_interaction_def emit_def update_conv'
       split: sum.splits pyval.splits option.splits if_splits)
  apply auto
  apply (drule spec, drule spec, erule notE, rule refl)+
  done

lemma demo_init:
  "PysmurfMonitor_init ''obs.smurf2'' True ''0.4''
     [''MYSQL_USER'' \<mapsto> ''u'', ''MYSQL_PASSWORD'' \<mapsto> ''p''] = Inr demo_monitor"
  by (simp add: PysmurfMonitor_init_def demo_monitor_def)

lemma demo_datagram:
  "datagramReceived demo_pm_env demo_monitor ''{}'' \<lparr>pysmurf_files = [], plog = []\<rparr> =
     (None, \<lparr>pysmurf_files = [demo_entry],
             plog = [NewFile (PStr ''/data/a.dat''), ComputeMd5 (PStr ''/data/a.dat''),
                     RunInteraction demo_entry, Added demo_entry]\<rparr>)"
  by (simp add: datagramReceived_def demo_pm_env_def demo_monitor_def demo_entry_def
      subscript_def emit_def run_interaction_def Let_def)

lemma datagramReceived_data_file:
  assumes "json_loads env data_in = Inr data"
      and "subscript data ''type'' = Inr (PStr ''data_file'')"
      and "subscript data ''payload'' = Inr (PDict payload)"
      and "map_of payload ''path'' = Some path"
      and "map_of payload ''timestamp'' = Some ts"
      and "utcfromtimestamp env ts = Inr t"
      and "get_md5sum env path = Inr md5"
      and "map_of payload ''plot'' = Some plot"
      and "py_int env plot = Inr n"
  shows "datagramReceived env self data_in w =
           (None, run_interaction env
                    (dict_update (AList.update ''plot'' n (AList.update ''md5sum'' (PStr md5)
                       (AList.update ''timestamp'' t payload))) (base_file_info self))
                    (emit (ComputeMd5 path) (emit (NewFile path) w)))"
  using assms
  by (simp add: datagramReceived_def subscript_def Let_def update_conv')

lemma datagramReceived_raises_or_inserts:
  assumes "datagramReceived env self data_in w = (r, w')"
      and "json_loads env data_in = Inr data"
      and "subscript data ''type'' = Inr (PStr ''data_file'')"
  shows "(\<exists>e. r = Some e) \<or> (\<exists>d. RunInteraction d \<in> set (drop (length (plog w)) (plog w')))"
  using assms
  by (auto simp: datagramReceived_def Let_def subscript_def run_interaction_def emit_def
       split: sum.splits pyval.splits option.splits if_splits)

text \<open>
  What an entry handed to the database carries, and where it comes from.
\<close>

lemma datagramReceived_handed_over:
  assumes "PysmurfMonitor_init addr ct ver environ = Inr self"
      and "datagramReceived env self data_in w = (r, w')"
  shows "\<exists>evs. plog w' = plog w @ evs \<and>
           (\<forall>d. RunInteraction d \<in> set evs \<longrightarrow>
              (\<exists>data payload path md5 fin.
                 json_loads env data_in = Inr data \<and>
                 subscript data ''payload'' = Inr (PDict payload) \<and>
                 map_of payload ''path'' = Some path \<and>
                 get_md5sum env path = Inr md5 \<and>
                 map_of d ''md5sum'' = Some (PStr md5) \<and>
                 evs = [NewFile path, ComputeMd5 path, RunInteraction d, fin] \<and>
                 (fin = Added d \<or> fin = NotAdded d))) \<and>
           (pysmurf_files w' = pysmurf_files w \<or>
            (\<exists>d. RunInteraction d \<in> set evs \<and> pysmurf_files w' = pysmurf_files w @ [d]))"
proof -
  from init_base_file_info [OF assms(1)] obtain site inst where
    b: "base_file_info self =
      [(''site'', PStr site), (''instance_id'', PStr inst), (''copied'', PInt 0),
       (''failed_copy_attempts'', PInt 0), (''socs_version'', PStr ver)]"
    by blast
  have md5: "map_of (dict_update (AList.update ''plot'' n (AList.update ''md5sum'' (PStr m) d0))
                 (base_file_info self)) ''md5sum'' = Some (PStr m)" for n m d0
    by (simp add: map_of_dict_update b update_conv')
  from datagramReceived_cases [OF assms(2)] show ?thesis
  proof (rule disjE)
    assume "pysmurf_files w' = pysmurf_files w \<and>
      (\<exists>evs. plog w' = plog w @ evs \<and> (\<forall>d. RunInteraction d \<notin> set evs))"
    then show ?thesis by blast
  next
    assume "\<exists>data payload path ts t md5 plot n d fin.
          json_loads env data_in = Inr data \<and> subscript data ''type'' = Inr (PStr ''data_file'') \<and>
          subscript data ''payload'' = Inr (PDict payload) \<and> map_of payload ''path'' = Some path \<and>
          get_md5sum env path = Inr md5 \<and>
          d = dict_update (AList.update ''plot'' n (AList.update ''md5sum'' (PStr md5)
                (AList.update ''timestamp'' t payload))) (base_file_info self) \<and>
          r = None \<and>
          plog w' = plog w @ [NewFile path, ComputeMd5 path, RunInteraction d, fin] \<and>
          ((fin = Added d \<and> pysmurf_files w' = pysmurf_files w @ [d]) \<or>
           (fin = NotAdded d \<and> pysmurf_files w' = pysmurf_files w))"
    then obtain data payload path t m n d fin where
      h: "json_loads env data_in = Inr data"
      "subscript data ''payload'' = Inr (PDict payload)"
      "map_of payload ''path'' = Some path"
      "get_md5sum env path = Inr m"
      "d = dict_update (AList.update ''plot'' n (AList.update ''md5sum'' (PStr m)
                (AList.update ''timestamp'' t payload))) (base_file_info self)"
      "plog w' = plog w @ [NewFile path, ComputeMd5 path, RunInteraction d, fin]"
      "fin = Added d \<and> pysmurf_files w' = pysmurf_files w @ [d] \<or>
       fin = NotAdded d \<and> pysmurf_files w' = pysmurf_files w"
      by blast
    from h(5) md5 have "map_of d ''md5sum'' = Some (PStr m)" by simp
    with h show ?thesis
      by (intro exI [of _ "[NewFile path, ComputeMd5 path, RunInteraction d, fin]"]) auto
  qed
qed

text \<open>
  Claim C7. For a \<^verbatim>\<open>data_file\<close> event whose payload has a path, a timestamp and a plot
  flag, and for which the timestamp conversion, the checksum computation and \<^verbatim>\<open>int\<close> raise
  nothing, \<^verbatim>\<open>datagramReceived\<close> logs the new file, calls \<^verbatim>\<open>get_md5sum\<close> on the published
  path, and only then hands the entry to the database, with the checksum that call
  returned in its \<^verbatim>\<open>md5sum\<close> field and the published path in its \<^verbatim>\<open>path\<close> field; the row is
  written when the interaction succeeds. For every \<^verbatim>\<open>data_file\<close> event, either an exception
  leaves \<^verbatim>\<open>datagramReceived\<close> or an entry is handed over. Conversely, whenever an entry is
  handed over, the datagram was a \<^verbatim>\<open>data_file\<close> event, \<^verbatim>\<open>get_md5sum\<close> was called on the
  path published in its payload before the hand-over, and the entry's \<^verbatim>\<open>md5sum\<close> is what
  that call returned. The checksum is computed once: after the hand-over only the log
  line of the callback or of the errback follows. A row is written to the table only as
  such an entry.
\<close>

theorem datagramReceived_md5sum:
  assumes "PysmurfMonitor_init addr ct ver environ = Inr self"
      and "datagramReceived env self data_in w = (r, w')"
  shows "(\<forall>data payload path ts t md5 plot n.
            json_loads env data_in = Inr data \<and>
            subscript data ''type'' = Inr (PStr ''data_file'') \<and>
            subscript data ''payload'' = Inr (PDict payload) \<and>
            map_of payload ''path'' = Some path \<and>
            map_of payload ''timestamp'' = Some ts \<and> utcfromtimestamp env ts = Inr t \<and>
            get_md5sum env path = Inr md5 \<and>
            map_of payload ''plot'' = Some plot \<and> py_int env plot = Inr n \<longrightarrow>
            (\<exists>d fin.
               r = None \<and>
               map_of d ''md5sum'' = Some (PStr md5) \<and> map_of d ''path'' = Some path \<and>
               plog w' = plog w @ [NewFile path, ComputeMd5 path, RunInteraction d, fin] \<and>
               (fin = Added d \<and> add_entry env d = None \<and>
                  pysmurf_files w' = pysmurf_files w @ [d]
                \<or> fin = NotAdded d \<and> add_entry env d \<noteq> None \<and>
                  pysmurf_files w' = pysmurf_files w)))
       \<and> (\<forall>data.
            json_loads env data_in = Inr data \<and>
            subscript data ''type'' = Inr (PStr ''data_file'') \<longrightarrow>
            (\<exists>e. r = Some e) \<or>
            (\<exists>d. RunInteraction d \<in> set (drop (length (plog w)) (plog w'))))
       \<and> (\<exists>evs. plog w' = plog w @ evs \<and>
           (\<forall>d. RunInteraction d \<in> set evs \<longrightarrow>
              (\<exists>data payload path md5 fin.
                 json_loads env data_in = Inr data \<and>
                 subscript data ''payload'' = Inr (PDict payload) \<and>
                 map_of payload ''path'' = Some path \<and>
                 get_md5sum env path = Inr md5 \<and>
                 map_of d ''md5sum'' = Some (PStr md5) \<and>
                 evs = [NewFile path, ComputeMd5 path, RunInteraction d, fin] \<and>
                 (fin = Added d \<or> fin = NotAdded d))) \<and>
           (pysmurf_files w' = pysmurf_files w \<or>
            (\<exists>d. RunInteraction d \<in> set evs \<and> pysmurf_files w' = pysmurf_files w @ [d])))"
proof (intro conjI allI impI)
  fix data payload path ts t md5 plot n
  assume h: "json_loads env data_in = Inr data \<and>
            subscript data ''type'' = Inr (PStr ''data_file'') \<and>
            subscript data ''payload'' = Inr (PDict payload) \<and>
            map_of payload ''path'' = Some path \<and>
            map_of payload ''timestamp'' = Some ts \<and> utcfromtimestamp env ts = Inr t \<and>
            get_md5sum env path = Inr md5 \<and>
            map_of payload ''plot'' = Some plot \<and> py_int env plot = Inr n"
  define d where "d = dict_update (AList.update ''plot'' n (AList.update ''md5sum'' (PStr md5)
                       (AList.update ''timestamp'' t payload))) (base_file_info self)"
  from init_base_file_info [OF assms(1)] obtain site inst where
    b: "base_file_info self =
      [(''site'', PStr site), (''instance_id'', PStr inst), (''copied'', PInt 0),
       (''failed_copy_attempts'', PInt 0), (''socs_version'', PStr ver)]"
    by blast
  from h have fields: "map_of d ''md5sum'' = Some (PStr md5)" "map_of d ''path'' = Some path"
    by (simp_all add: d_def b update_conv')
  from h have hs: "json_loads env data_in = Inr data"
    "subscript data ''type'' = Inr (PStr ''data_file'')"
    "subscript data ''payload'' = Inr (PDict payload)"
    "map_of payload ''path'' = Some path"
    "map_of payload ''timestamp'' = Some ts" "utcfromtimestamp env ts = Inr t"
    "get_md5sum env path = Inr md5"
    "map_of payload ''plot'' = Some plot" "py_int env plot = Inr n"
    by blast+
  have "datagramReceived env self data_in w =
      (None, run_interaction env d (emit (ComputeMd5 path) (emit (NewFile path) w)))"
    unfolding d_def by (rule datagramReceived_data_file [OF hs])
  with assms(2) have r: "r = None"
    and w': "w' = run_interaction env d (emit (ComputeMd5 path) (emit (NewFile path) w))"
    by simp_all
  show "\<exists>d fin.
               r = None \<and>
               map_of d ''md5sum'' = Some (PStr md5) \<and> map_of d ''path'' = Some path \<and>
               plog w' = plog w @ [NewFile path, ComputeMd5 path, RunInteraction d, fin] \<and>
               (fin = Added d \<and> add_entry env d = None \<and>
                  pysmurf_files w' = pysmurf_files w @ [d]
                \<or> fin = NotAdded d \<and> add_entry env d \<noteq> None \<and>
                  pysmurf_files w' = pysmurf_files w)"
  proof (cases "add_entry env d")
    case None
    with r w' fields show ?thesis
      by (intro exI [of _ d] exI [of _ "Added d"])
         (simp add: run_interaction_def emit_def)
  next
    case (Some e)
    with r w' fields show ?thesis
      by (intro exI [of _ d] exI [of _ "NotAdded d"])
         (simp add: run_interaction_def emit_def)
  qed
next
  fix data
  assume "json_loads env data_in = Inr data \<and>
            subscript data ''type'' = Inr (PStr ''data_file'')"
  with datagramReceived_raises_or_inserts [OF assms(2)]
  show "(\<exists>e. r = Some e) \<or>
            (\<exists>d. RunInteraction d \<in> set (drop (length (plog w)) (plog w')))"
    by blast
next
  show "\<exists>evs. plog w' = plog w @ evs \<and>
           (\<forall>d. RunInteraction d \<in> set evs \<longrightarrow>
              (\<exists>data payload path md5 fin.
                 json_loads env data_in = Inr data \<and>
                 subscript data ''payload'' = Inr (PDict payload) \<and>
                 map_of payload ''path'' = Some path \<and>
                 get_md5sum env path = Inr md5 \<and>
                 map_of d ''md5sum'' = Some (PStr md5) \<and>
                 evs = [NewFile path, ComputeMd5 path, RunInteraction d, fin] \<and>
                 (fin = Added d \<or> fin = NotAdded d))) \<and>
           (pysmurf_files w' = pysmurf_files w \<or>
            (\<exists>d. RunInteraction d \<in> set evs \<and> pysmurf_files w' = pysmurf_files w @ [d]))"
    by (rule datagramReceived_handed_over [OF assms])
qed

theorem datagramReceived_md5sum_witness:
  "PysmurfMonitor_init ''obs.smurf2'' True ''0.4''
     [''MYSQL_USER'' \<mapsto> ''u'', ''MYSQL_PASSWORD'' \<mapsto> ''p''] = Inr demo_monitor \<and>
   datagramReceived demo_pm_env demo_monitor ''{}'' \<lparr>pysmurf_files = [], plog = []\<rparr> =
     (None, \<lparr>pysmurf_files = [demo_entry],
             plog = [NewFile (PStr ''/data/a.dat''), ComputeMd5 (PStr ''/data/a.dat''),
                     RunInteraction demo_entry, Added demo_entry]\<rparr>) \<and>
   map_of demo_entry ''md5sum'' = Some (PStr ''0cc175b9c0f1b6a831c399e269772661'')"
proof (intro conjI)
  from datagramReceived_md5sum [OF demo_init demo_datagram, THEN conjunct2, THEN conjunct2]
  obtain evs where evs:
    "[NewFile (PStr ''/data/a.dat''), ComputeMd5 (PStr ''/data/a.dat''),
      RunInteraction demo_entry, Added demo_entry] = evs"
    "\<forall>d. RunInteraction d \<in> set evs \<longrightarrow>
       (\<exists>path md5. get_md5sum demo_pm_env path = Inr md5 \<and> map_of d ''md5sum'' = Some (PStr md5))"
    by auto
  from evs(1) have "RunInteraction demo_entry \<in> set evs" by auto
  with evs(2) obtain path md5 where
    "get_md5sum demo_pm_env path = Inr md5" "map_of demo_entry ''md5sum'' = Some (PStr md5)"
    by blast
  then show "map_of demo_entry ''md5sum'' = Some (PStr ''0cc175b9c0f1b6a831c399e269772661'')"
    by (simp add: demo_pm_env_def)
qed (rule demo_init demo_datagram)+

text \<open>
  Claim C8. For a monitor built by \<^verbatim>\<open>__init__\<close>, every entry that \<^verbatim>\<open>datagramReceived\<close>
  hands to the database, and so every row it writes, has \<^verbatim>\<open>copied\<close> equal to 0 and
  \<^verbatim>\<open>failed_copy_attempts\<close> equal to 0, whatever the payload of the datagram contains.
\<close>

theorem datagramReceived_unattempted:
  assumes "PysmurfMonitor_init addr ct ver environ = Inr self"
      and "datagramReceived env self data_in w = (r, w')"
  shows "\<exists>evs. plog w' = plog w @ evs \<and>
           (\<forall>d. RunInteraction d \<in> set evs \<longrightarrow>
              map_of d ''copied'' = Some (PInt 0) \<and>
              map_of d ''failed_copy_attempts'' = Some (PInt 0)) \<and>
           (pysmurf_files w' = pysmurf_files w \<or>
            (\<exists>d. RunInteraction d \<in> set evs \<and> pysmurf_files w' = pysmurf_files w @ [d]))"
proof -
  from init_base_file_info [OF assms(1)] obtain site inst where
    b: "base_file_info self =
      [(''site'', PStr site), (''instance_id'', PStr inst), (''copied'', PInt 0),
       (''failed_copy_attempts'', PInt 0), (''socs_version'', PStr ver)]"
    by blast
  have zero: "map_of (dict_update d0 (base_file_info self)) ''copied'' = Some (PInt 0)"
    "map_of (dict_update d0 (base_file_info self)) ''failed_copy_attempts'' = Some (PInt 0)" for d0
    by (simp_all add: b update_conv')
  from datagramReceived_cases [OF assms(2)] show ?thesis
  proof (rule disjE)
    assume "pysmurf_files w' = pysmurf_files w \<and>
      (\<exists>evs. plog w' = plog w @ evs \<and> (\<forall>d. RunInteraction d \<notin> set evs))"
    then show ?thesis by blast
  next
    assume "\<exists>data payload path ts t md5 plot n d fin.
          json_loads env data_in = Inr data \<and> subscript data ''type'' = Inr (PStr ''data_file'') \<and>
          subscript data ''payload'' = Inr (PDict payload) \<and> map_of payload ''path'' = Some path \<and>
          get_md5sum env path = Inr md5 \<and>
          d = dict_update (AList.update ''plot'' n (AList.update ''md5sum'' (PStr md5)
                (AList.update ''timestamp'' t payload))) (base_file_info self) \<and>
          r = None \<and>
          plog w' = plog w @ [NewFile path, ComputeMd5 path, RunInteraction d, fin] \<and>
          ((fin = Added d \<and> pysmurf_files w' = pysmurf_files w @ [d]) \<or>
           (fin = NotAdded d \<and> pysmurf_files w' = pysmurf_files w))"
    then obtain path d0 d fin where
      h: "d = dict_update d0 (base_file_info self)"
      "plog w' = plog w @ [NewFile path, ComputeMd5 path, RunInteraction d, fin]"
      "fin = Added d \<and> pysmurf_files w' = pysmurf_files w @ [d] \<or>
       fin = NotAdded d \<and> pysmurf_files w' = pysmurf_files w"
      by blast
    from h(1) zero have "map_of d ''copied'' = Some (PInt 0)"
      "map_of d ''failed_copy_attempts'' = Some (PInt 0)" by simp_all
    with h show ?thesis
      by (intro exI [of _ "[NewFile path, ComputeMd5 path, RunInteraction d, fin]"]) auto
  qed
qed

theorem datagramReceived_unattempted_witness:
  "PysmurfMonitor_init ''obs.smurf2'' True ''0.4''
     [''MYSQL_USER'' \<mapsto> ''u'', ''MYSQL_PASSWORD'' \<mapsto> ''p''] = Inr demo_monitor \<and>
   datagramReceived demo_pm_env demo_monitor ''{}'' \<lparr>pysmurf_files = [], plog = []\<rparr> =
     (None, \<lparr>pysmurf_files = [demo_entry],
             plog = [NewFile (PStr ''/data/a.dat''), ComputeMd5 (PStr ''/data/a.dat''),
                     RunInteraction demo_entry, Added demo_entry]\<rparr>) \<and>
   map_of demo_entry ''copied'' = Some (PInt 0) \<and>
   map_of demo_entry ''failed_copy_attempts'' = Some (PInt 0)"
proof (intro conjI)
  from datagramReceived_unattempted [OF demo_init demo_datagram]
  obtain evs where evs:
    "[NewFile (PStr ''/data/a.dat''), ComputeMd5 (PStr ''/data/a.dat''),
      RunInteraction demo_entry, Added demo_entry] = evs"
    "\<forall>d. RunInteraction d \<in> set evs \<longrightarrow>
       map_of d ''copied'' = Some (PInt 0) \<and> map_of d ''failed_copy_attempts'' = Some (PInt 0)"
    by auto
  from evs(1) have "RunInteraction demo_entry \<in> set evs" by auto
  with evs(2) show "map_of demo_entry ''copied'' = Some (PInt 0)"
    "map_of demo_entry ''failed_copy_attempts'' = Some (PInt 0)"
    by blast+
qed (rule demo_init demo_datagram)+

section \<open>Properties of the SupRsync run loop\<close>

lemma step_simps:
  "pc s = Idle \<Longrightarrow> step w s = s"
  "pc s = LoopTest \<Longrightarrow> step w s =
     (if running s then s\<lparr>pc := OpenSession, trace := trace s @ [TestRunning True]\<rparr>
      else s\<lparr>pc := Stopped, trace := trace s @ [TestRunning False]\<rparr>)"
  "pc s = OpenSession \<Longrightarrow> step w s =
     s\<lparr>pc := GetNextFile, in_txn := True, dirty := None, trace := trace s @ [Begin]\<rparr>"
  "pc s = LogTimeout f \<Longrightarrow> step w s =
     s\<lparr>pc := TimeoutWait,
       trace := trace s @ [LogError (''Timed out when processing '' @ local_path f)]\<rparr>"
  "pc s = TimeoutWait \<Longrightarrow> step w s =
     (case time_sleep (timeout_wait s) of
        Inl e \<Rightarrow> raise_in_session e s
      | Inr d \<Rightarrow> s\<lparr>pc := FixedSleep, trace := trace s @ [Slept d]\<rparr>)"
  "pc s = FixedSleep \<Longrightarrow> step w s = s\<lparr>pc := CloseSession, trace := trace s @ [Slept 3]\<rparr>"
  "pc s = CloseSession \<Longrightarrow> step w s =
     s\<lparr>pc := LoopTest, in_txn := False, dirty := None,
       db := (case dirty s of None \<Rightarrow> db s | Some file \<Rightarrow> (db s)(file_id file \<mapsto> file)),
       trace := trace s @ [Commit]\<rparr>"
  "pc s = Stopped \<Longrightarrow> step w s = s"
  "pc s = Crashed e \<Longrightarrow> step w s = s"
  by (simp_all add: step_def)

lemma step_GetNextFile:
  "pc s = GetNextFile \<Longrightarrow> step w s =
     (case sel w (db s) of
        NoFile \<Rightarrow> s\<lparr>pc := FixedSleep, trace := trace s @ [GetNext]\<rparr>
      | NextFile file \<Rightarrow> s\<lparr>pc := HandleFile file, trace := trace s @ [GetNext]\<rparr>
      | SelectFailed e \<Rightarrow> raise_in_session e (s\<lparr>trace := trace s @ [GetNext]\<rparr>))"
  by (simp add: step_def)

lemma step_HandleFile:
  "pc s = HandleFile file \<Longrightarrow> step w s =
     (case hdl w file of
        (file', None) \<Rightarrow>
          s\<lparr>pc := FixedSleep, dirty := Some file', trace := trace s @ [Handle (file_id file)]\<rparr>
      | (file', Some e) \<Rightarrow>
          (if e = TimeoutExpired
           then s\<lparr>pc := LogTimeout file', dirty := Some file',
                  trace := trace s @ [Handle (file_id file)]\<rparr>
           else raise_in_session e (s\<lparr>trace := trace s @ [Handle (file_id file)]\<rparr>)))"
  by (simp add: step_def)


lemmas demo_defs = demo_start_def run_begin_def SupRsync_init_def step_def raise_in_session_def
  demo_file_def stop_def in_flight_def

text \<open>
  Claim C2, as stated, fails. With the database unreachable, \<^verbatim>\<open>get_next_file\<close> raises in
  the first iteration: the transaction is rolled back, nothing is logged, \<^verbatim>\<open>run\<close> ends
  with the exception, and no further step changes anything, so there is no retry.
\<close>

theorem run_store_error_counterexample:
  "pc (steps [store_down, store_down, store_down] demo_start) = Crashed OperationalError \<and>
   trace (steps [store_down, store_down, store_down] demo_start) =
     [TestRunning True, Begin, GetNext, Rollback] \<and>
   steps [store_down, store_down, store_down, store_down, store_down, store_down] demo_start =
     steps [store_down, store_down, store_down] demo_start"
  by (simp add: demo_defs store_down_def)

text \<open>
  Claim C4, as stated, fails. In an iteration that finds no file, the loop is about to
  begin the fixed sleep with the transaction still open, and the commit comes after the
  sleep.
\<close>

theorem sleep_inside_transaction_counterexample:
  "pc (steps [nothing_to_do, nothing_to_do, nothing_to_do] demo_start) = FixedSleep \<and>
   in_txn (steps [nothing_to_do, nothing_to_do, nothing_to_do] demo_start) \<and>
   trace (steps [nothing_to_do, nothing_to_do, nothing_to_do, nothing_to_do, nothing_to_do]
            demo_start) = [TestRunning True, Begin, GetNext, Slept 3, Commit]"
  by (simp add: demo_defs nothing_to_do_def)

lemma stopped_steps: "pc s = Stopped \<Longrightarrow> steps ws s = s"
  by (induction ws) (simp_all add: step_def)

lemma crashed_steps: "pc s = Crashed e \<Longrightarrow> steps ws s = s"
  by (induction ws) (simp_all add: step_def)

lemma step_txn_inv:
  "in_txn s = session_open (pc s) \<Longrightarrow> in_txn (step w s) = session_open (pc (step w s))"
  by (cases "pc s")
     (auto simp: step_def session_open_def raise_in_session_def
           split: select_result.splits prod.splits option.splits sum.splits)

lemma steps_txn_inv:
  "in_txn s = session_open (pc s) \<Longrightarrow> in_txn (steps ws s) = session_open (pc (steps ws s))"
  by (induction ws arbitrary: s) (simp_all add: step_txn_inv)

lemma run_begin_txn_inv:
  "in_txn (run_begin (SupRsync_init tw table)) = session_open (pc (run_begin (SupRsync_init tw table)))"
  by (simp add: run_begin_def SupRsync_init_def session_open_def)

text \<open>
  Claim C4, amended. In every state that \<^verbatim>\<open>run\<close> can reach, when the fixed 3-second sleep
  is about to begin the transaction opened at the start of the iteration is open; it stays
  open during the sleep, and the very next step after the sleep commits it and leads to
  the loop test.
\<close>

theorem fixed_sleep_inside_transaction:
  assumes "s = steps ws (run_begin (SupRsync_init tw table))"
      and "pc s = FixedSleep"
  shows "in_txn s
       \<and> step w s = s\<lparr>pc := CloseSession, trace := trace s @ [Slept 3]\<rparr>
       \<and> in_txn (step w s)
       \<and> step w' (step w s) =
           s\<lparr>pc := LoopTest, in_txn := False, dirty := None,
             db := (case dirty s of None \<Rightarrow> db s | Some file \<Rightarrow> (db s)(file_id file \<mapsto> file)),
             trace := trace s @ [Slept 3, Commit]\<rparr>"
proof -
  from steps_txn_inv [OF run_begin_txn_inv] assms have t: "in_txn s"
    by (simp add: session_open_def)
  from assms(2) have 1: "step w s = s\<lparr>pc := CloseSession, trace := trace s @ [Slept 3]\<rparr>"
    by (simp add: step_simps)
  have 2: "step w' (s\<lparr>pc := CloseSession, trace := trace s @ [Slept 3]\<rparr>) =
           s\<lparr>pc := LoopTest, in_txn := False, dirty := None,
             db := (case dirty s of None \<Rightarrow> db s | Some file \<Rightarrow> (db s)(file_id file \<mapsto> file)),
             trace := trace s @ [Slept 3, Commit]\<rparr>"
    by (simp add: step_def split: option.splits)
  from t 1 2 show ?thesis by simp
qed

theorem fixed_sleep_inside_transaction_witness:
  "at_fixed_sleep =
     steps [nothing_to_do, nothing_to_do, nothing_to_do] (run_begin (SupRsync_init (Finite 20) Map.empty)) \<and>
   pc at_fixed_sleep = FixedSleep \<and>
   in_txn at_fixed_sleep \<and>
   step nothing_to_do at_fixed_sleep =
     at_fixed_sleep\<lparr>pc := CloseSession, trace := trace at_fixed_sleep @ [Slept 3]\<rparr>"
proof -
  have r: "at_fixed_sleep =
     steps [nothing_to_do, nothing_to_do, nothing_to_do] (run_begin (SupRsync_init (Finite 20) Map.empty))"
    by (simp only: at_fixed_sleep_def demo_start_def)
  have p: "pc at_fixed_sleep = FixedSleep"
    by (simp add: demo_defs at_fixed_sleep_def nothing_to_do_def)
  from fixed_sleep_inside_transaction [OF r p, of nothing_to_do nothing_to_do] r p
  show ?thesis by blast
qed

text \<open>
  Claim C2, amended. An exception raised by \<^verbatim>\<open>get_next_file\<close>, or raised by
  \<^verbatim>\<open>handle_file\<close> and other than \<^verbatim>\<open>subprocess.TimeoutExpired\<close> (a store error among them),
  is not caught by the loop: the transaction is rolled back, the changes of the iteration
  are dropped, and \<^verbatim>\<open>run\<close> ends with that exception and never iterates again. The only
  exception the loop catches and logs is \<^verbatim>\<open>subprocess.TimeoutExpired\<close> from
  \<^verbatim>\<open>handle_file\<close>, after which it goes on to the cooldown.
\<close>

theorem run_uncaught_exception:
  "(pc s = GetNextFile \<and> sel w (db s) = SelectFailed e \<longrightarrow>
      step w s = s\<lparr>pc := Crashed e, in_txn := False, dirty := None,
                    trace := trace s @ [GetNext, Rollback]\<rparr>)
 \<and> (pc s = HandleFile file \<and> hdl w file = (file', Some e) \<and> e \<noteq> TimeoutExpired \<longrightarrow>
      step w s = s\<lparr>pc := Crashed e, in_txn := False, dirty := None,
                    trace := trace s @ [Handle (file_id file), Rollback]\<rparr>)
 \<and> (pc s = HandleFile file \<and> hdl w file = (file', Some TimeoutExpired) \<longrightarrow>
      steps [w, w'] s =
        s\<lparr>pc := TimeoutWait, dirty := Some file',
          trace := trace s @ [Handle (file_id file),
                              LogError (''Timed out when processing '' @ local_path file')]\<rparr>)
 \<and> (pc s = Crashed e \<longrightarrow> steps ws s = s)"
  by (auto simp: step_def raise_in_session_def crashed_steps)

theorem run_uncaught_exception_witness:
  "pc at_select = GetNextFile \<and>
   sel store_down (db at_select) = SelectFailed OperationalError \<and>
   step store_down at_select =
     at_select\<lparr>pc := Crashed OperationalError, in_txn := False, dirty := None,
                trace := trace at_select @ [GetNext, Rollback]\<rparr>"
proof -
  have p: "pc at_select = GetNextFile"
    by (simp add: demo_defs at_select_def store_down_def)
  have q: "sel store_down (db at_select) = SelectFailed OperationalError"
    by (simp add: store_down_def)
  from run_uncaught_exception [of at_select store_down OperationalError] p q
  show ?thesis by blast
qed

lemma stop_simps:
  "pc (stop s) = pc s" "trace (stop s) = trace s" "db (stop s) = db s"
  "in_txn (stop s) = in_txn s" "dirty (stop s) = dirty s" "timeout_wait (stop s) = timeout_wait s"
  "running (stop s) = False" "op_status (stop s) = ''stopping''"
  "in_flight (stop s) = in_flight s"
  by (simp_all add: stop_def in_flight_def)

lemma step_in_flight:
  assumes "\<not> running s" and "in_flight s"
  shows "\<exists>evs. trace (step w s) = trace s @ evs \<and> filter is_test evs = [] \<and>
           \<not> running (step w s) \<and>
           ((pc s = CloseSession \<and> pc (step w s) = LoopTest \<and> evs = [Commit])
          \<or> (pc s \<noteq> CloseSession \<and> in_flight (step w s) \<and> togo (pc (step w s)) < togo (pc s))
          \<or> (\<exists>e pre. pc (step w s) = Crashed e \<and> evs = pre @ [Rollback]))"
proof (cases "pc s")
  case OpenSession
  with assms show ?thesis
    by (intro exI [of _ "[Begin]"]) (simp add: step_def togo_def in_flight_def)
next
  case GetNextFile
  show ?thesis
  proof (cases "sel w (db s)")
    case NoFile
    with GetNextFile assms show ?thesis
      by (intro exI [of _ "[GetNext]"]) (simp add: step_def togo_def in_flight_def)
  next
    case (NextFile f)
    with GetNextFile assms show ?thesis
      by (intro exI [of _ "[GetNext]"]) (simp add: step_def togo_def in_flight_def)
  next
    case (SelectFailed e)
    with GetNextFile assms show ?thesis
      by (intro exI [of _ "[GetNext, Rollback]"])
         (simp add: step_def raise_in_session_def in_flight_def)
  qed
next
  case (HandleFile f)
  obtain f' r where h: "hdl w f = (f', r)"
    by (cases "hdl w f")
  show ?thesis
  proof (cases "r = None \<or> r = Some TimeoutExpired")
    case True
    with HandleFile h assms show ?thesis
      by (intro exI [of _ "[Handle (file_id f)]"])
         (auto simp: step_def togo_def in_flight_def)
  next
    case False
    then obtain e where "r = Some e" "e \<noteq> TimeoutExpired"
      by (cases r) auto
    with HandleFile h assms show ?thesis
      by (intro exI [of _ "[Handle (file_id f), Rollback]"])
         (simp add: step_def raise_in_session_def in_flight_def)
  qed
next
  case (LogTimeout f)
  with assms show ?thesis
    by (intro exI [of _ "[LogError (''Timed out when processing '' @ local_path f)]"])
       (simp add: step_def togo_def in_flight_def)
next
  case TimeoutWait
  show ?thesis
  proof (cases "time_sleep (timeout_wait s)")
    case (Inl e)
    with TimeoutWait assms show ?thesis
      by (intro exI [of _ "[Rollback]"])
         (simp add: step_def raise_in_session_def in_flight_def)
  next
    case (Inr d)
    with TimeoutWait assms show ?thesis
      by (intro exI [of _ "[Slept d]"]) (simp add: step_def togo_def in_flight_def)
  qed
next
  case FixedSleep
  with assms show ?thesis
    by (intro exI [of _ "[Slept 3]"]) (simp add: step_def togo_def in_flight_def)
next
  case CloseSession
  with assms show ?thesis
    by (intro exI [of _ "[Commit]"]) (simp add: step_def)
qed (use assms in \<open>simp_all add: in_flight_def\<close>)

lemma loop_test_stops:
  "pc s = LoopTest \<Longrightarrow> \<not> running s \<Longrightarrow>
     step w s = s\<lparr>pc := Stopped, trace := trace s @ [TestRunning False]\<rparr>"
  by (simp add: step_def)

lemma steps_in_flight:
  assumes "\<not> running s" and "in_flight s" and "togo (pc s) \<le> length ws"
  shows "\<exists>evs. filter is_test evs = [] \<and>
           ((pc (steps ws s) = Stopped \<and>
             trace (steps ws s) = trace s @ evs @ [Commit, TestRunning False])
          \<or> (\<exists>e. pc (steps ws s) = Crashed e \<and> trace (steps ws s) = trace s @ evs @ [Rollback]))"
  using assms
proof (induction ws arbitrary: s)
  case Nil
  then show ?case by (auto simp: togo_def in_flight_def split: pc.splits)
next
  case (Cons w ws)
  from step_in_flight [OF Cons.prems(1,2), of w] obtain evs where
    evs: "trace (step w s) = trace s @ evs" "filter is_test evs = []" "\<not> running (step w s)"
    and alt: "(pc s = CloseSession \<and> pc (step w s) = LoopTest \<and> evs = [Commit])
          \<or> (pc s \<noteq> CloseSession \<and> in_flight (step w s) \<and> togo (pc (step w s)) < togo (pc s))
          \<or> (\<exists>e pre. pc (step w s) = Crashed e \<and> evs = pre @ [Rollback])"
    by blast
  from alt show ?case
  proof (elim disjE conjE exE)
    assume c: "pc s = CloseSession" "pc (step w s) = LoopTest" "evs = [Commit]"
    from c(1) Cons.prems(3) obtain w' ws' where ws: "ws = w' # ws'"
      by (cases ws) (auto simp: togo_def)
    from loop_test_stops [OF c(2) evs(3), of w'] evs(1) c(3)
    have "pc (step w' (step w s)) = Stopped"
      "trace (step w' (step w s)) = trace s @ [] @ [Commit, TestRunning False]"
      by simp_all
    with ws stopped_steps [of "step w' (step w s)" ws']
    have "pc (steps (w # ws) s) = Stopped"
      "trace (steps (w # ws) s) = trace s @ [] @ [Commit, TestRunning False]"
      by simp_all
    then show ?thesis
      by (intro exI [of _ "[]"]) simp
  next
    assume f: "in_flight (step w s)" "togo (pc (step w s)) < togo (pc s)"
    with Cons.prems(3) have t: "togo (pc (step w s)) \<le> length ws" by simp
    from Cons.IH [OF evs(3) f(1) t] obtain evs' where
      evs': "filter is_test evs' = []"
      "(pc (steps ws (step w s)) = Stopped \<and>
          trace (steps ws (step w s)) = trace (step w s) @ evs' @ [Commit, TestRunning False])
       \<or> (\<exists>e. pc (steps ws (step w s)) = Crashed e \<and>
             trace (steps ws (step w s)) = trace (step w s) @ evs' @ [Rollback])"
      by blast
    from evs' evs(1,2) show ?thesis
      by (intro exI [of _ "evs @ evs'"]) auto
  next
    fix e pre
    assume c: "pc (step w s) = Crashed e" "evs = pre @ [Rollback]"
    with evs(1) crashed_steps [OF c(1), of ws]
    have "pc (steps (w # ws) s) = Crashed e" "trace (steps (w # ws) s) = trace s @ pre @ [Rollback]"
      by simp_all
    moreover from c(2) evs(2) have "filter is_test pre = []" by simp
    ultimately show ?thesis
      by (intro exI [of _ pre]) simp
  qed
qed

lemma step_calm:
  assumes "calm w" and "time_sleep (timeout_wait s) = Inr d" and "\<forall>e. pc s \<noteq> Crashed e"
  shows "(\<forall>e. pc (step w s) \<noteq> Crashed e) \<and> timeout_wait (step w s) = timeout_wait s"
proof (cases "pc s")
  case GetNextFile
  with assms show ?thesis
    by (cases "sel w (db s)") (auto simp: step_def calm_def)
next
  case (HandleFile f)
  from assms(1) have "snd (hdl w f) = None \<or> snd (hdl w f) = Some TimeoutExpired"
    by (simp add: calm_def)
  with HandleFile assms show ?thesis
    by (cases "hdl w f") (auto simp: step_def)
qed (use assms in \<open>auto simp: step_def\<close>)

lemma steps_calm:
  assumes "\<forall>w \<in> set ws. calm w" and "time_sleep (timeout_wait s) = Inr d"
      and "\<forall>e. pc s \<noteq> Crashed e"
  shows "\<forall>e. pc (steps ws s) \<noteq> Crashed e"
  using assms
proof (induction ws arbitrary: s)
  case Nil
  then show ?case by simp
next
  case (Cons w ws)
  from Cons.prems have "calm w" by simp
  from step_calm [OF this Cons.prems(2,3)] Cons.prems(1,2) Cons.IH [of "step w s"]
  show ?case by simp
qed

text \<open>
  Claim C3, as stated, fails. \<^verbatim>\<open>_stop\<close> is called while \<^verbatim>\<open>handle_file\<close> is about to run on
  the sample file: when \<^verbatim>\<open>_stop\<close> has returned, the iteration is still in flight at the same
  statement, with nothing of it done yet; the handling, the sleep and the commit all
  happen after the return.
\<close>

theorem stop_returns_in_flight_counterexample:
  "pc (stop at_handle) = HandleFile demo_file \<and>
   in_flight (stop at_handle) \<and>
   trace (stop at_handle) = [TestRunning True, Begin, GetNext] \<and>
   trace (steps [copy_ok, copy_ok, copy_ok, copy_ok] (stop at_handle)) =
     [TestRunning True, Begin, GetNext, Handle 7, Slept 3, Commit, TestRunning False]"
  by (simp add: demo_defs at_handle_def copy_ok_def)

text \<open>
  Claim C3, amended. \<^verbatim>\<open>_stop\<close> never waits: it sets \<^verbatim>\<open>self.running\<close> to false and the
  session status to \<^verbatim>\<open>'stopping'\<close> and returns, leaving the loop at the statement where it
  was, the transaction, the table and the events untouched. An iteration in flight at the
  call goes on after \<^verbatim>\<open>_stop\<close> has returned, and within eight steps \<^verbatim>\<open>run\<close> has ended, in
  one of two ways, with no test of the flag in between: either the iteration has
  committed, the loop has then tested the flag, found it false, and \<^verbatim>\<open>run\<close> has returned;
  or an exception that the loop does not catch has rolled the iteration back and left
  \<^verbatim>\<open>run\<close>. The first is the case whenever \<^verbatim>\<open>get_next_file\<close> raises nothing,
  \<^verbatim>\<open>handle_file\<close> raises nothing but the copy timeout, and the cooldown is a duration that
  \<^verbatim>\<open>time.sleep\<close> accepts.
\<close>

theorem stop_returns_at_once:
  "pc (stop s) = pc s \<and> in_flight (stop s) = in_flight s \<and> trace (stop s) = trace s \<and>
   db (stop s) = db s \<and> in_txn (stop s) = in_txn s \<and>
   \<not> running (stop s) \<and> op_status (stop s) = ''stopping'' \<and>
   (in_flight s \<and> 8 \<le> length ws \<longrightarrow>
      (\<exists>evs. filter is_test evs = [] \<and>
         ((pc (steps ws (stop s)) = Stopped \<and>
           trace (steps ws (stop s)) = trace s @ evs @ [Commit, TestRunning False])
        \<or> (\<exists>e. pc (steps ws (stop s)) = Crashed e \<and>
                trace (steps ws (stop s)) = trace s @ evs @ [Rollback])))) \<and>
   (in_flight s \<and> 8 \<le> length ws \<and> (\<forall>w \<in> set ws. calm w) \<and>
    time_sleep (timeout_wait s) = Inr d \<longrightarrow>
      pc (steps ws (stop s)) = Stopped \<and>
      (\<exists>evs. filter is_test evs = [] \<and>
         trace (steps ws (stop s)) = trace s @ evs @ [Commit, TestRunning False]))"
proof -
  have t: "togo (pc (stop s)) \<le> length ws" if "8 \<le> length ws"
  proof -
    have "togo (pc s) \<le> 8"
      by (simp add: togo_def split: pc.splits)
    with that show ?thesis
      by (simp add: stop_simps)
  qed
  have general: "\<exists>evs. filter is_test evs = [] \<and>
         ((pc (steps ws (stop s)) = Stopped \<and>
           trace (steps ws (stop s)) = trace s @ evs @ [Commit, TestRunning False])
        \<or> (\<exists>e. pc (steps ws (stop s)) = Crashed e \<and>
                trace (steps ws (stop s)) = trace s @ evs @ [Rollback]))"
    if h: "in_flight s" "8 \<le> length ws"
    using steps_in_flight [of "stop s" ws] h t
    by (simp add: stop_simps)
  have quiet: "pc (steps ws (stop s)) = Stopped \<and>
      (\<exists>evs. filter is_test evs = [] \<and>
         trace (steps ws (stop s)) = trace s @ evs @ [Commit, TestRunning False])"
    if h: "in_flight s" "8 \<le> length ws" "\<forall>w \<in> set ws. calm w"
      "time_sleep (timeout_wait s) = Inr d"
  proof -
    from h(1) have "\<forall>e. pc (stop s) \<noteq> Crashed e"
      by (auto simp: stop_simps in_flight_def)
    with steps_calm [of ws "stop s" d] h(3,4)
    have "\<forall>e. pc (steps ws (stop s)) \<noteq> Crashed e"
      by (simp add: stop_simps)
    with general [OF h(1,2)] show ?thesis by blast
  qed
  from general quiet show ?thesis
    by (simp add: stop_simps)
qed

theorem stop_returns_at_once_witness:
  "in_flight at_handle \<and> calm copy_ok \<and> time_sleep (timeout_wait at_handle) = Inr 20 \<and>
   pc (stop at_handle) = pc at_handle \<and>
   pc (steps (replicate 8 copy_ok) (stop at_handle)) = Stopped"
proof -
  have a: "in_flight at_handle" by (simp add: demo_defs at_handle_def copy_ok_def)
  have k: "calm copy_ok" by (simp add: calm_def copy_ok_def)
  then have b: "\<forall>w \<in> set (replicate 8 copy_ok). calm w" by simp
  have c: "time_sleep (timeout_wait at_handle) = Inr 20"
    by (simp add: demo_defs at_handle_def copy_ok_def time_sleep_def sleep_max_def)
  have d: "8 \<le> length (replicate 8 copy_ok)" by simp
  from stop_returns_at_once [of at_handle "replicate 8 copy_ok" 20] a b c d k
  show ?thesis by blast
qed

lemma step_flag_unread:
  "pc s \<noteq> LoopTest \<Longrightarrow>
     step w (s\<lparr>running := b, op_status := x\<rparr>) = (step w s)\<lparr>running := b, op_status := x\<rparr>"
  by (cases "pc s")
     (auto simp: step_def raise_in_session_def
           split: select_result.splits prod.splits option.splits sum.splits)

lemma step_stop_commute: "pc s \<noteq> LoopTest \<Longrightarrow> step w (stop s) = stop (step w s)"
  by (simp add: stop_def step_flag_unread)

lemma steps_stop_commute: "uninterrupted ws s \<Longrightarrow> steps ws (stop s) = stop (steps ws s)"
  by (induction ws arbitrary: s) (simp_all add: step_stop_commute)

lemma step_pc_origin:
  "pc (step w s) = Stopped \<Longrightarrow> pc s = Stopped \<or> (pc s = LoopTest \<and> \<not> running s)"
  "pc (step w s) = LoopTest \<Longrightarrow> pc s = CloseSession"
  "pc (step w s) = GetNextFile \<Longrightarrow> pc s = OpenSession"
  "pc (step w s) = OpenSession \<Longrightarrow> pc s = LoopTest \<and> running s"
  by (cases "pc s";
      auto simp: step_def raise_in_session_def
           split: select_result.splits prod.splits option.splits sum.splits if_splits)+

text \<open>
  Claim C6. The loop reads \<^verbatim>\<open>self.running\<close> only at the loop test: a step taken anywhere
  else does the same whether or not \<^verbatim>\<open>_stop\<close> was called just before it, and so do all
  the steps of an iteration up to the next loop test, so a stop request that arrives in
  the middle of an iteration interrupts nothing. The loop exits by the flag only at the
  loop test, which is reached only after the commit that ends an iteration; the session
  is opened only after a test that found the flag true, and the selection comes only
  after the session is opened: one test per iteration, before the selection.
\<close>

theorem stop_only_at_loop_test:
  "(pc s \<noteq> LoopTest \<longrightarrow> step w (stop s) = stop (step w s))
 \<and> (uninterrupted ws s \<longrightarrow> steps ws (stop s) = stop (steps ws s))
 \<and> (pc (step w s) = Stopped \<longrightarrow> pc s = Stopped \<or> (pc s = LoopTest \<and> \<not> running s))
 \<and> (pc (step w s) = LoopTest \<longrightarrow> pc s = CloseSession)
 \<and> (pc (step w s) = OpenSession \<longrightarrow> pc s = LoopTest \<and> running s)
 \<and> (pc (step w s) = GetNextFile \<longrightarrow> pc s = OpenSession)
 \<and> (pc s = LoopTest \<longrightarrow>
       step w s =
         (if running s then s\<lparr>pc := OpenSession, trace := trace s @ [TestRunning True]\<rparr>
          else s\<lparr>pc := Stopped, trace := trace s @ [TestRunning False]\<rparr>))"
  using step_pc_origin [of w s] step_stop_commute [of s w] steps_stop_commute [of ws s]
    step_simps(2) [of s w]
  by blast

theorem stop_only_at_loop_test_witness:
  "uninterrupted [copy_ok, copy_ok, copy_ok] at_handle \<and>
   pc at_handle \<noteq> LoopTest \<and>
   steps [copy_ok, copy_ok, copy_ok] (stop at_handle) =
     stop (steps [copy_ok, copy_ok, copy_ok] at_handle) \<and>
   step copy_ok (stop at_handle) = stop (step copy_ok at_handle)"
proof -
  have a: "uninterrupted [copy_ok, copy_ok, copy_ok] at_handle" by (simp add: demo_defs at_handle_def copy_ok_def)
  have b: "pc at_handle \<noteq> LoopTest" by (simp add: demo_defs at_handle_def copy_ok_def)
  from stop_only_at_loop_test [of at_handle copy_ok "[copy_ok, copy_ok, copy_ok]"] a b
  show ?thesis by blast
qed

text \<open>
  A handling that raises the timeout has counted one failed attempt.
\<close>

lemma handle_file_timeout:
  "snd (handle_file max_attempts out file) = Some TimeoutExpired \<Longrightarrow>
     fst (handle_file max_attempts out file) = count_failure max_attempts file"
  by (auto simp: handle_file_def split: if_splits removal.splits transfer.splits)

text \<open>
  A cooldown that \<^verbatim>\<open>time.sleep\<close> rejects (negative, NaN, or beyond the range of the
  nanosecond count) makes the sleep in the \<^verbatim>\<open>except\<close> branch raise: the iteration is
  rolled back and \<^verbatim>\<open>run\<close> ends.
\<close>

lemma rejected_cooldown_raises:
  "pc s = TimeoutWait \<Longrightarrow> time_sleep (timeout_wait s) = Inl e \<Longrightarrow>
     step w s = s\<lparr>pc := Crashed e, in_txn := False, dirty := None,
                   trace := trace s @ [Rollback]\<rparr>"
  by (simp add: step_simps raise_in_session_def)

text \<open>
  Claim C5, as stated, fails. The agent runs with \<^verbatim>\<open>--timeout-wait -1\<close> and the copy of the
  sample file exceeds its timeout: the handler counts the failed attempt and raises
  \<^verbatim>\<open>subprocess.TimeoutExpired\<close>, the loop logs it, and \<^verbatim>\<open>time.sleep(-1)\<close> raises
  \<^verbatim>\<open>ValueError\<close> in the \<^verbatim>\<open>except\<close> branch. The transaction is rolled back, so the record
  in the table still has its counter at 0; nothing was slept, and \<^verbatim>\<open>run\<close> has ended with
  the exception instead of going on to a next iteration.
\<close>

theorem rejected_cooldown_counterexample:
  "pc at_handle_hasty = HandleFile demo_file \<and>
   snd (hdl copy_slow demo_file) = Some TimeoutExpired \<and>
   failed_copy_attempts (fst (hdl copy_slow demo_file)) = 1 \<and>
   pc (steps [copy_slow, copy_slow, copy_slow] at_handle_hasty) = Crashed ValueError \<and>
   db (steps [copy_slow, copy_slow, copy_slow] at_handle_hasty) 7 = Some demo_file \<and>
   failed_copy_attempts demo_file = 0 \<and>
   trace (steps [copy_slow, copy_slow, copy_slow] at_handle_hasty) =
     [TestRunning True, Begin, GetNext, Handle 7,
      LogError ''Timed out when processing /data/a.dat'', Rollback]"
  by (simp add: at_handle_hasty_def run_begin_def SupRsync_init_def step_def
      raise_in_session_def demo_file_def copy_slow_def handle_file_def count_failure_def
      time_sleep_def sleep_max_def)

text \<open>
  Claim C5, amended. In an iteration in which \<^verbatim>\<open>handle_file\<close> raises
  \<^verbatim>\<open>subprocess.TimeoutExpired\<close> and the configured cooldown is a duration that
  \<^verbatim>\<open>time.sleep\<close> accepts (a number, not negative and within the range of the nanosecond
  count), the loop logs the timeout, sleeps \<^verbatim>\<open>timeout_wait\<close> seconds and then the fixed 3
  seconds, and commits: the record written to the table has its attempt counter
  incremented by exactly one, and its \<^verbatim>\<open>copied\<close> state is unchanged unless the counter has
  reached the ceiling, in which case it is permanently failed. The time slept before the
  next loop test is at least \<^verbatim>\<open>timeout_wait\<close>.
\<close>

theorem timeout_counts_and_cools_down:
  assumes "pc s = HandleFile file"
      and "hdl w file = handle_file max_attempts out file"
      and "snd (handle_file max_attempts out file) = Some TimeoutExpired"
      and "time_sleep (timeout_wait s) = Inr d"
  shows "\<exists>file' evs.
           file' = file\<lparr>failed_copy_attempts := failed_copy_attempts file + 1,
                         copied := (if max_attempts \<le> failed_copy_attempts file + 1
                                    then PermanentlyFailed else copied file)\<rparr> \<and>
           evs = [Handle (file_id file),
                  LogError (''Timed out when processing '' @ local_path file),
                  Slept d, Slept 3, Commit] \<and>
           steps [w, w2, w3, w4, w5] s =
             s\<lparr>pc := LoopTest, in_txn := False, dirty := None,
               db := (db s)(file_id file \<mapsto> file'), trace := trace s @ evs\<rparr> \<and>
           timeout_wait s = Finite d \<and> d \<le> slept evs"
proof -
  from handle_file_timeout [OF assms(3)] assms(2,3)
  have h: "hdl w file = (count_failure max_attempts file, Some TimeoutExpired)"
    by (simp add: prod_eq_iff)
  from assms(1) h have 1: "step w s =
      s\<lparr>pc := LogTimeout (count_failure max_attempts file),
        dirty := Some (count_failure max_attempts file),
        trace := trace s @ [Handle (file_id file)]\<rparr>"
    by (simp add: step_HandleFile)
  from assms(4) have f: "timeout_wait s = Finite d" "0 \<le> d"
    by (auto simp: time_sleep_def split: pyfloat.splits if_splits)
  show ?thesis
    using assms(4) f
    by (simp add: 1 step_simps count_failure_def)
qed

theorem timeout_counts_and_cools_down_witness:
  "pc at_handle_slow = HandleFile demo_file \<and>
   hdl copy_slow demo_file = handle_file 5 \<lparr>transfer = CopyTimedOut, removal = Deleted\<rparr> demo_file \<and>
   snd (handle_file 5 \<lparr>transfer = CopyTimedOut, removal = Deleted\<rparr> demo_file) = Some TimeoutExpired \<and>
   time_sleep (timeout_wait at_handle_slow) = Inr 20 \<and>
   (\<exists>file' evs.
      file' = demo_file\<lparr>failed_copy_attempts := failed_copy_attempts demo_file + 1,
                         copied := (if 5 \<le> failed_copy_attempts demo_file + 1
                                    then PermanentlyFailed else copied demo_file)\<rparr> \<and>
      evs = [Handle (file_id demo_file),
             LogError (''Timed out when processing '' @ local_path demo_file),
             Slept 20, Slept 3, Commit] \<and>
      steps [copy_slow, copy_slow, copy_slow, copy_slow, copy_slow] at_handle_slow =
        at_handle_slow\<lparr>pc := LoopTest, in_txn := False, dirty := None,
          db := (db at_handle_slow)(file_id demo_file \<mapsto> file'),
          trace := trace at_handle_slow @ evs\<rparr> \<and>
      timeout_wait at_handle_slow = Finite 20 \<and> 20 \<le> slept evs)"
proof -
  have a: "pc at_handle_slow = HandleFile demo_file"
    by (simp add: demo_defs at_handle_slow_def copy_slow_def)
  have b: "hdl copy_slow demo_file =
      handle_file 5 \<lparr>transfer = CopyTimedOut, removal = Deleted\<rparr> demo_file"
    by (simp add: copy_slow_def)
  have c: "snd (handle_file 5 \<lparr>transfer = CopyTimedOut, removal = Deleted\<rparr> demo_file) =
      Some TimeoutExpired"
    by (simp add: handle_file_def demo_file_def)
  have d: "time_sleep (timeout_wait at_handle_slow) = Inr 20"
    by (simp add: demo_defs at_handle_slow_def copy_slow_def time_sleep_def sleep_max_def)
  from timeout_counts_and_cools_down [OF a b c d, of copy_slow copy_slow copy_slow copy_slow] a b c d
  show ?thesis by blast
qed

section \<open>Several engines on one store\<close>

lemma step_opens_session:
  "in_txn (step w s) \<Longrightarrow> \<not> in_txn s \<Longrightarrow> in_txn s = session_open (pc s) \<Longrightarrow> pc s = OpenSession"
  by (cases "pc s")
     (auto simp: step_def session_open_def raise_in_session_def
           split: select_result.splits prod.splits option.splits sum.splits if_splits)

lemma engine_step_blocked:
  "pc (engines c i) = OpenSession \<Longrightarrow> holder c \<noteq> None \<Longrightarrow> engine_step i w c = c"
  by (simp add: engine_step_def)

lemma engine_step_free:
  "\<not> (pc (engines c i) = OpenSession \<and> holder c \<noteq> None) \<Longrightarrow>
   s = (engines c i)\<lparr>db := shared c\<rparr> \<Longrightarrow>
   engine_step i w c =
     c\<lparr>holder := (if in_txn (step w s) then Some i else if in_txn s then None else holder c),
       shared := db (step w s), engines := (engines c)(i := step w s)\<rparr>"
  by (cases "pc (engines c i) = OpenSession"; cases "holder c"; simp add: engine_step_def Let_def)

lemma engine_step_inv:
  assumes "cluster_inv c"
  shows "cluster_inv (engine_step i w c)"
proof (cases "pc (engines c i) = OpenSession \<and> holder c \<noteq> None")
  case True
  with assms show ?thesis
    by (simp add: engine_step_blocked)
next
  case False
  define s where "s = (engines c i)\<lparr>db := shared c\<rparr>"
  define s' where "s' = step w s"
  have s: "in_txn s = session_open (pc s)" "in_txn s \<longleftrightarrow> holder c = Some i"
    "pc s = pc (engines c i)"
    using assms by (auto simp: s_def cluster_inv_def)
  have s': "in_txn s' = session_open (pc s')"
    unfolding s'_def by (rule step_txn_inv [OF s(1)])
  have free: "holder c = None" if "in_txn s'" "\<not> in_txn s"
  proof -
    from step_opens_session [of w s] that s(1) have "pc s = OpenSession"
      by (simp add: s'_def)
    with False s(3) show ?thesis by simp
  qed
  have e: "engine_step i w c =
        c\<lparr>holder := (if in_txn s' then Some i else if in_txn s then None else holder c),
          shared := db s', engines := (engines c)(i := s')\<rparr>"
    unfolding s'_def by (rule engine_step_free [OF False s_def])
  have others: "in_txn (engines c j) = session_open (pc (engines c j))"
    "in_txn (engines c j) \<longleftrightarrow> holder c = Some j" for j
    using assms by (auto simp: cluster_inv_def)
  show ?thesis
    unfolding cluster_inv_def
  proof (intro allI conjI)
    fix j
    show "in_txn (engines (engine_step i w c) j) =
          session_open (pc (engines (engine_step i w c) j))"
      using others(1) [of j] s' by (simp add: e)
    show "in_txn (engines (engine_step i w c) j) \<longleftrightarrow> holder (engine_step i w c) = Some j"
    proof (cases "j = i")
      case True
      with s(2) show ?thesis by (simp add: e)
    next
      case False
      have h: "holder (engine_step i w c) =
          (if in_txn s' then Some i else if in_txn s then None else holder c)"
        "engines (engine_step i w c) j = engines c j"
        using False by (simp_all add: e)
      have "holder c \<noteq> Some j" if "in_txn s' \<or> in_txn s"
      proof (cases "in_txn s")
        case True
        with s(2) False show ?thesis by simp
      next
        case False
        with that free show ?thesis by simp
      qed
      with others(2) [of j] False show ?thesis
        unfolding h by (cases "in_txn s'"; cases "in_txn s"; simp)
    qed
  qed
qed

lemma run_cluster_inv: "cluster_inv c \<Longrightarrow> cluster_inv (run_cluster sched c)"
  by (induction sched arbitrary: c) (auto simp: engine_step_inv)

lemma cluster_init_inv: "cluster_inv (cluster_init tw table)"
  by (simp add: cluster_inv_def cluster_init_def run_begin_def SupRsync_init_def session_open_def)

lemma step_db:
  "db (step w s) =
     (if pc s = CloseSession
      then (case dirty s of None \<Rightarrow> db s | Some file \<Rightarrow> (db s)(file_id file \<mapsto> file))
      else db s)"
  by (cases "pc s")
     (auto simp: step_def raise_in_session_def
           split: select_result.splits prod.splits option.splits sum.splits)

text \<open>
  Claim C1. In every iteration the selection (\<^verbatim>\<open>get_next_file\<close>) and the handling
  (\<^verbatim>\<open>handle_file\<close>) run inside the transaction opened at the start of that iteration: the
  step from the selection to the handling neither commits nor rolls back, the handler's
  changes stay with the open session, and the table changes only at the commit that closes
  the same \<^verbatim>\<open>with\<close> block. With the store's transaction lock as the spec describes it,
  in every state that any number of engines can reach on one store, in any interleaving,
  an engine that selects or handles a file is inside its transaction and holds the lock,
  so no two engines are ever selecting or handling at the same time, on the same record
  or on any other.
\<close>

theorem selection_and_handling_in_one_transaction:
  assumes "c = run_cluster sched (cluster_init tw table)"
  shows "(\<forall>i. pc (engines c i) = GetNextFile \<or> (\<exists>f. pc (engines c i) = HandleFile f) \<longrightarrow>
             in_txn (engines c i) \<and> holder c = Some i)
       \<and> (\<forall>i j. i \<noteq> j \<longrightarrow>
             \<not> (session_open (pc (engines c i)) \<and> session_open (pc (engines c j))))
       \<and> (\<forall>i j f g. pc (engines c i) = HandleFile f \<and> pc (engines c j) = HandleFile g \<longrightarrow> i = j)
       \<and> (\<forall>s w f. pc s = GetNextFile \<and> sel w (db s) = NextFile f \<longrightarrow>
             step w s = s\<lparr>pc := HandleFile f, trace := trace s @ [GetNext]\<rparr>)
       \<and> (\<forall>s w f f'. pc s = HandleFile f \<and> hdl w f = (f', None) \<longrightarrow>
             step w s = s\<lparr>pc := FixedSleep, dirty := Some f',
                           trace := trace s @ [Handle (file_id f)]\<rparr>)
       \<and> (\<forall>s w. db (step w s) =
             (if pc s = CloseSession
              then (case dirty s of None \<Rightarrow> db s | Some file \<Rightarrow> (db s)(file_id file \<mapsto> file))
              else db s))"
proof -
  from assms have inv: "cluster_inv c"
    by (simp add: run_cluster_inv cluster_init_inv)
  then have open_holds: "session_open (pc (engines c i)) \<Longrightarrow>
      in_txn (engines c i) \<and> holder c = Some i" for i
    by (auto simp: cluster_inv_def)
  have 1: "\<forall>i. pc (engines c i) = GetNextFile \<or> (\<exists>f. pc (engines c i) = HandleFile f) \<longrightarrow>
             in_txn (engines c i) \<and> holder c = Some i"
  proof (intro allI impI)
    fix i assume "pc (engines c i) = GetNextFile \<or> (\<exists>f. pc (engines c i) = HandleFile f)"
    then have "session_open (pc (engines c i))"
      by (auto simp: session_open_def)
    then show "in_txn (engines c i) \<and> holder c = Some i"
      by (rule open_holds)
  qed
  have 2: "\<forall>i j. i \<noteq> j \<longrightarrow>
             \<not> (session_open (pc (engines c i)) \<and> session_open (pc (engines c j)))"
  proof (intro allI impI notI)
    fix i j :: nat
    assume "i \<noteq> j"
      and "session_open (pc (engines c i)) \<and> session_open (pc (engines c j))"
    with open_holds [of i] open_holds [of j] show False by simp
  qed
  have 3: "\<forall>i j f g. pc (engines c i) = HandleFile f \<and> pc (engines c j) = HandleFile g \<longrightarrow> i = j"
  proof (intro allI impI)
    fix i j f g
    assume h: "pc (engines c i) = HandleFile f \<and> pc (engines c j) = HandleFile g"
    then have "session_open (pc (engines c i))" "session_open (pc (engines c j))"
      by (simp_all add: session_open_def)
    with 2 show "i = j" by blast
  qed
  have 4: "\<forall>s w f. pc s = GetNextFile \<and> sel w (db s) = NextFile f \<longrightarrow>
             step w s = s\<lparr>pc := HandleFile f, trace := trace s @ [GetNext]\<rparr>"
    by (simp add: step_GetNextFile)
  have 5: "\<forall>s w f f'. pc s = HandleFile f \<and> hdl w f = (f', None) \<longrightarrow>
             step w s = s\<lparr>pc := FixedSleep, dirty := Some f',
                           trace := trace s @ [Handle (file_id f)]\<rparr>"
    by (simp add: step_HandleFile)
  from 1 2 3 4 5 step_db show ?thesis by blast
qed

lemma demo_cluster_state:
  "pc (engines demo_cluster 0) = HandleFile demo_file"
  "pc (engines demo_cluster 1) = OpenSession"
  by (simp_all add: demo_cluster_def demo_schedule_def cluster_init_def engine_step_def
       Let_def demo_defs copy_ok_def)

theorem selection_and_handling_in_one_transaction_witness:
  "demo_cluster = run_cluster demo_schedule (cluster_init (\<lambda>i. Finite 20) Map.empty) \<and>
   pc (engines demo_cluster 0) = HandleFile demo_file \<and>
   pc (engines demo_cluster 1) = OpenSession \<and>
   in_txn (engines demo_cluster 0) \<and> holder demo_cluster = Some 0"
proof -
  note t = selection_and_handling_in_one_transaction [OF demo_cluster_def]
  from t have "pc (engines demo_cluster 0) = GetNextFile \<or>
      (\<exists>f. pc (engines demo_cluster 0) = HandleFile f) \<longrightarrow>
      in_txn (engines demo_cluster 0) \<and> holder demo_cluster = Some 0"
    by blast
  with demo_cluster_state demo_cluster_def show ?thesis by blast
qed

end
